theory Spec2Isabelle
  imports Main "HOL-Library.Char_ord" "HOL-Library.List_Lexorder" "HOL-Library.AList"
begin

section \<open>Exceptions\<close>

text \<open>
  \<open>FacebookRequestError code subcode\<close> carries \<^verbatim>\<open>api_error_code()\<close> and
  \<^verbatim>\<open>api_error_subcode()\<close>, either of which may be \<^verbatim>\<open>None\<close>.
\<close>

datatype exn =
    FacebookRequestError "int option" "int option"
  | ValueError
  | KeyError
  | TypeError
  | AttributeError
  | OverflowError
  | OtherError string

section \<open>Calendar values\<close>

text \<open>
  Python's \<^verbatim>\<open>date\<close> is represented by its proleptic Gregorian ordinal
  (\<^verbatim>\<open>date.toordinal()\<close>, day 1 is 0001-01-01) and a \<^verbatim>\<open>timedelta\<close> by its number of
  microseconds. A \<^verbatim>\<open>datetime\<close> has the fields year to microsecond, held in \<open>naive\<close> as the
  number of microseconds from midnight of ordinal 0 to the moment these fields name, and
  the attribute \<^verbatim>\<open>tzinfo\<close>, held in \<open>utcoffset\<close> as its offset from UTC in seconds, \<open>None\<close>
  for a naive datetime. \<^verbatim>\<open>datetime.utcnow()\<close> returns a naive datetime; its readings are
  given by their \<open>naive\<close> number. Adding a \<^verbatim>\<open>timedelta\<close> changes the fields only, and
  subtracting and comparing naive datetimes is integer arithmetic on them, as in the
  datetime module. The bounds of the datetime module (years 1 to 9999, OverflowError
  beyond) are modelled in the parser only: \<^verbatim>\<open>until\<close> is always yesterday in
  \<^verbatim>\<open>process_account\<close>.
\<close>

type_synonym date = int
type_synonym timedelta = int
type_synonym naive_datetime = int

record datetime =
  naive :: naive_datetime
  utcoffset :: "int option"

definition timedelta_days :: "int \<Rightarrow> timedelta" where
  "timedelta_days n = n * 86400000000"

definition timedelta_weeks :: "int \<Rightarrow> timedelta" where
  "timedelta_weeks n = timedelta_days (7 * n)"

text \<open>\<^verbatim>\<open>datetime.date()\<close>: the calendar day of the fields of a datetime.\<close>

definition date_of :: "datetime \<Rightarrow> date" where
  "date_of t = naive t div 86400000000"

subsection \<open>Ordinals and calendar fields\<close>

text \<open>
  The conversions between an ordinal and (year, month, day) follow the datetime module
  (\<^verbatim>\<open>_ymd2ord\<close>, \<^verbatim>\<open>_ord2ymd\<close>).
\<close>

definition is_leap :: "int \<Rightarrow> bool" where
  "is_leap y \<longleftrightarrow> y mod 4 = 0 \<and> (y mod 100 \<noteq> 0 \<or> y mod 400 = 0)"

definition days_in_month :: "int \<Rightarrow> int \<Rightarrow> int" where
  "days_in_month y m =
     (if m = 2 then (if is_leap y then 29 else 28)
      else if m = 4 \<or> m = 6 \<or> m = 9 \<or> m = 11 then 30 else 31)"

definition days_before_year :: "int \<Rightarrow> int" where
  "days_before_year y = (y - 1) * 365 + (y - 1) div 4 - (y - 1) div 100 + (y - 1) div 400"

definition days_before_month :: "int \<Rightarrow> int \<Rightarrow> int" where
  "days_before_month y m =
     [0, 31, 59, 90, 120, 151, 181, 212, 243, 273, 304, 334] ! nat (m - 1)
     + (if m > 2 \<and> is_leap y then 1 else 0)"

definition ymd2ord :: "int \<Rightarrow> int \<Rightarrow> int \<Rightarrow> date" where
  "ymd2ord y m d = days_before_year y + days_before_month y m + d"

definition ord2ymd :: "date \<Rightarrow> int \<times> int \<times> int" where
  "ord2ymd n =
     (let n400 = (n - 1) div 146097; r400 = (n - 1) mod 146097;
          n100 = r400 div 36524; r100 = r400 mod 36524;
          n4 = r100 div 1461; r4 = r100 mod 1461;
          n1 = r4 div 365; r1 = r4 mod 365;
          y = n400 * 400 + 1 + n100 * 100 + n4 * 4 + n1
      in if n1 = 4 \<or> n100 = 4 then (y - 1, 12, 31)
         else let m0 = (r1 + 50) div 32;
                  m = (if days_before_month y m0 > r1 then m0 - 1 else m0)
              in (y, m, r1 - days_before_month y m + 1))"

text \<open>The ordinal of 9999-12-31, the last \<^verbatim>\<open>date\<close>, and \<^verbatim>\<open>date.isoweekday()\<close> (Monday is 1).\<close>

definition max_ordinal :: date where
  "max_ordinal = 3652059"

definition isoweekday :: "date \<Rightarrow> int" where
  "isoweekday d = (d + 6) mod 7 + 1"

text \<open>
  The constructor \<^verbatim>\<open>datetime(year, month, day, hour, minute, second, microsecond, tzinfo)\<close>;
  \<open>None\<close> is its ValueError for a field out of range.
\<close>

definition datetime_of_fields ::
  "int \<times> int \<times> int \<Rightarrow> int \<times> int \<times> int \<times> int \<times> int option \<Rightarrow> datetime option" where
  "datetime_of_fields ymd hmsu =
     (case (ymd, hmsu) of
        ((y, m, d), (h, mi, s, us, tz)) \<Rightarrow>
          if 1 \<le> y \<and> y \<le> 9999 \<and> 1 \<le> m \<and> m \<le> 12 \<and> 1 \<le> d \<and> d \<le> days_in_month y m
             \<and> 0 \<le> h \<and> h \<le> 23 \<and> 0 \<le> mi \<and> mi \<le> 59 \<and> 0 \<le> s \<and> s \<le> 59
             \<and> 0 \<le> us \<and> us \<le> 999999
          then Some \<lparr>naive = ymd2ord y m d * 86400000000
                              + ((h * 60 + mi) * 60 + s) * 1000000 + us,
                     utcoffset = tz\<rparr>
          else None)"

subsection \<open>ISO-8601 strings\<close>

text \<open>
  \<^verbatim>\<open>date.isoformat()\<close> (also \<^verbatim>\<open>str(date)\<close>) and \<^verbatim>\<open>datetime.isoformat()\<close> print the
  calendar fields with leading zeros; the fraction is printed only when the microseconds
  are not zero, and the offset from UTC, as \<^verbatim>\<open>+HH:MM\<close> or \<^verbatim>\<open>-HH:MM\<close> (with the seconds
  when there are any), only for a datetime that has a \<^verbatim>\<open>tzinfo\<close>.
\<close>

definition digit_char :: "int \<Rightarrow> char" where
  "digit_char n = ''0123456789'' ! nat n"

fun zfill :: "nat \<Rightarrow> int \<Rightarrow> string" where
  "zfill 0 n = []"
| "zfill (Suc w) n = zfill w (n div 10) @ [digit_char (n mod 10)]"

definition date_isoformat :: "date \<Rightarrow> string" where
  "date_isoformat d =
     (case ord2ymd d of (y, m, dd) \<Rightarrow> zfill 4 y @ ''-'' @ zfill 2 m @ ''-'' @ zfill 2 dd)"

definition format_offset :: "int option \<Rightarrow> string" where
  "format_offset off =
     (case off of
        None \<Rightarrow> []
      | Some seconds \<Rightarrow>
          (if seconds < 0 then ''-'' else ''+'')
            @ zfill 2 (\<bar>seconds\<bar> div 3600) @ '':'' @ zfill 2 (\<bar>seconds\<bar> mod 3600 div 60)
            @ (if \<bar>seconds\<bar> mod 60 = 0 then [] else '':'' @ zfill 2 (\<bar>seconds\<bar> mod 60)))"

definition isoformat :: "datetime \<Rightarrow> string" where
  "isoformat t =
     (let us = naive t mod 86400000000; s = us div 1000000 in
      date_isoformat (naive t div 86400000000) @ ''T'' @ zfill 2 (s div 3600) @ '':''
        @ zfill 2 (s mod 3600 div 60) @ '':'' @ zfill 2 (s mod 60)
        @ (if us mod 1000000 = 0 then [] else ''.'' @ zfill 6 (us mod 1000000))
        @ format_offset (utcoffset t))"

subsection \<open>\<^verbatim>\<open>dateutil.parser.isoparse\<close>\<close>

text \<open>
  The parser is the one of the \<^verbatim>\<open>dateutil\<close> library (\<^verbatim>\<open>isoparser\<close> with no fixed
  separator), function by function. It works on the ASCII bytes of the string and reads
  every number with \<^verbatim>\<open>int\<close> from a slice of the string; \<open>slice s a b\<close> is \<^verbatim>\<open>s[a:b]\<close>.
  \<open>py_int\<close> is \<^verbatim>\<open>int\<close> on such a slice, \<open>None\<close> for its ValueError: besides the digits it
  accepts white space around the number, a sign, and single underscores between digits.
\<close>

definition slice :: "string \<Rightarrow> nat \<Rightarrow> nat \<Rightarrow> string" where
  "slice s a b = take (b - a) (drop a s)"

definition is_ascii :: "char \<Rightarrow> bool" where
  "is_ascii c \<longleftrightarrow> (of_char c :: nat) < 128"

definition is_space :: "char \<Rightarrow> bool" where
  "is_space c \<longleftrightarrow> c \<in> set [CHR '' '', CHR 0x09, CHR 0x0A, CHR 0x0B, CHR 0x0C, CHR 0x0D]"

definition digit_val :: "char \<Rightarrow> int option" where
  "digit_val c = (if CHR ''0'' \<le> c \<and> c \<le> CHR ''9'' then Some (of_char c - 48) else None)"

text \<open>The digits after the first one, with the value \<open>acc\<close> read so far.\<close>

fun digits_from :: "int \<Rightarrow> string \<Rightarrow> int option" where
  "digits_from acc [] = Some acc"
| "digits_from acc [c] = (case digit_val c of None \<Rightarrow> None | Some v \<Rightarrow> Some (10 * acc + v))"
| "digits_from acc (c # d # cs) =
     (if c = CHR ''_'' then
        (case digit_val d of None \<Rightarrow> None | Some v \<Rightarrow> digits_from (10 * acc + v) cs)
      else (case digit_val c of None \<Rightarrow> None | Some v \<Rightarrow> digits_from (10 * acc + v) (d # cs)))"

definition py_int :: "string \<Rightarrow> int option" where
  "py_int s =
     (let t = rev (dropWhile is_space (rev (dropWhile is_space s)));
          body = (if take 1 t = ''-'' \<or> take 1 t = ''+'' then drop 1 t else t)
      in case body of
           [] \<Rightarrow> None
         | c # cs \<Rightarrow>
             (case digit_val c of
                None \<Rightarrow> None
              | Some v \<Rightarrow>
                  map_option (\<lambda>n. if take 1 t = ''-'' then - n else n) (digits_from v cs)))"

text \<open>
  \<^verbatim>\<open>_parse_isodate_common\<close>: \<^verbatim>\<open>YYYY\<close>, \<^verbatim>\<open>YYYY-MM\<close>, \<^verbatim>\<open>YYYY-MM-DD\<close> and \<^verbatim>\<open>YYYYMMDD\<close>. The
  value is the components and the position after the date; \<open>None\<close> is ValueError.
\<close>

definition parse_isodate_common :: "string \<Rightarrow> ((int \<times> int \<times> int) \<times> nat) option" where
  "parse_isodate_common dt_str =
     (if length dt_str < 4 then None
      else case py_int (slice dt_str 0 4) of
             None \<Rightarrow> None
           | Some year \<Rightarrow>
               if 4 \<ge> length dt_str then Some ((year, 1, 1), 4)
               else
                 let has_sep = (slice dt_str 4 5 = ''-'');
                     pos = (if has_sep then 5 else 4)
                 in if length dt_str < pos + 2 then None
                    else case py_int (slice dt_str pos (pos + 2)) of
                           None \<Rightarrow> None
                         | Some month \<Rightarrow>
                             if pos + 2 \<ge> length dt_str then
                               (if has_sep then Some ((year, month, 1), pos + 2) else None)
                             else if has_sep \<and> slice dt_str (pos + 2) (pos + 3) \<noteq> ''-'' then None
                             else
                               let pos = (if has_sep then pos + 3 else pos + 2)
                               in if length dt_str < pos + 2 then None
                                  else case py_int (slice dt_str pos (pos + 2)) of
                                         None \<Rightarrow> None
                                       | Some day \<Rightarrow> Some ((year, month, day), pos + 2))"

text \<open>
  \<^verbatim>\<open>_calculate_weekdate\<close>: the day \<open>day\<close> of the ISO week \<open>week\<close> of \<open>year\<close>. The ValueError
  for the year is the one of \<^verbatim>\<open>date(year, 1, 4)\<close>, the OverflowError the one of the final
  addition.
\<close>

definition calculate_weekdate :: "int \<Rightarrow> int \<Rightarrow> int \<Rightarrow> exn + date" where
  "calculate_weekdate year week day =
     (if \<not> (0 < week \<and> week < 54) then Inl ValueError
      else if \<not> (0 < day \<and> day < 8) then Inl ValueError
      else if \<not> (1 \<le> year \<and> year \<le> 9999) then Inl ValueError
      else
        let jan_4 = ymd2ord year 1 4;
            week_1 = jan_4 - (isoweekday jan_4 - 1);
            week_offset = (week - 1) * 7 + (day - 1)
        in if week_1 + week_offset > max_ordinal then Inl OverflowError
           else Inr (week_1 + week_offset))"

text \<open>
  \<^verbatim>\<open>_parse_isodate_uncommon\<close>: the week dates \<^verbatim>\<open>YYYY-Www\<close>, \<^verbatim>\<open>YYYYWww\<close>, \<^verbatim>\<open>YYYY-Www-D\<close>,
  \<^verbatim>\<open>YYYYWwwD\<close> and the ordinal dates \<^verbatim>\<open>YYYY-DDD\<close>, \<^verbatim>\<open>YYYYDDD\<close>.
\<close>

definition parse_isodate_uncommon :: "string \<Rightarrow> exn + ((int \<times> int \<times> int) \<times> nat)" where
  "parse_isodate_uncommon dt_str =
     (if length dt_str < 4 then Inl ValueError
      else case py_int (slice dt_str 0 4) of
             None \<Rightarrow> Inl ValueError
           | Some year \<Rightarrow>
               let has_sep = (slice dt_str 4 5 = ''-'');
                   pos = (if has_sep then 5 else 4)
               in if slice dt_str pos (pos + 1) = ''W'' then
                    (case py_int (slice dt_str (pos + 1) (pos + 3)) of
                       None \<Rightarrow> Inl ValueError
                     | Some weekno \<Rightarrow>
                         if length dt_str > pos + 3 then
                           (if (slice dt_str (pos + 3) (pos + 4) = ''-'') \<noteq> has_sep
                            then Inl ValueError
                            else
                              let pos = (if has_sep then pos + 4 else pos + 3)
                              in case py_int (slice dt_str pos (pos + 1)) of
                                   None \<Rightarrow> Inl ValueError
                                 | Some dayno \<Rightarrow>
                                     (case calculate_weekdate year weekno dayno of
                                        Inl e \<Rightarrow> Inl e
                                      | Inr base_date \<Rightarrow> Inr (ord2ymd base_date, pos + 1)))
                         else (case calculate_weekdate year weekno 1 of
                                 Inl e \<Rightarrow> Inl e
                               | Inr base_date \<Rightarrow> Inr (ord2ymd base_date, pos + 3)))
                  else if length dt_str < pos + 3 then Inl ValueError
                  else case py_int (slice dt_str pos (pos + 3)) of
                         None \<Rightarrow> Inl ValueError
                       | Some ordinal_day \<Rightarrow>
                           if ordinal_day < 1
                              \<or> ordinal_day > 365 + (if is_leap year then 1 else 0)
                           then Inl ValueError
                           else if \<not> (1 \<le> year \<and> year \<le> 9999) then Inl ValueError
                           else Inr (ord2ymd (ymd2ord year 1 1 + (ordinal_day - 1)), pos + 3))"

text \<open>\<^verbatim>\<open>_parse_isodate\<close>: the common forms first, the others when these raise ValueError.\<close>

definition parse_isodate :: "string \<Rightarrow> exn + ((int \<times> int \<times> int) \<times> nat)" where
  "parse_isodate dt_str =
     (case parse_isodate_common dt_str of
        Some r \<Rightarrow> Inr r
      | None \<Rightarrow> parse_isodate_uncommon dt_str)"

text \<open>
  \<^verbatim>\<open>_parse_tzstr\<close>: \<^verbatim>\<open>Z\<close>, \<^verbatim>\<open>+HH\<close>, \<^verbatim>\<open>+HHMM\<close>, \<^verbatim>\<open>+HH:MM\<close> and the same with \<^verbatim>\<open>-\<close>. The
  value is the offset of the time zone in seconds (\<^verbatim>\<open>tz.UTC\<close> has the offset 0).
\<close>

definition parse_tzstr :: "string \<Rightarrow> int option" where
  "parse_tzstr tzstr =
     (if tzstr = ''Z'' \<or> tzstr = ''z'' then Some 0
      else if length tzstr \<notin> set [3, 5, 6] then None
      else if slice tzstr 0 1 \<noteq> ''-'' \<and> slice tzstr 0 1 \<noteq> ''+'' then None
      else case py_int (slice tzstr 1 3) of
             None \<Rightarrow> None
           | Some hours \<Rightarrow>
               (case (if length tzstr = 3 then Some 0
                      else py_int (drop (if slice tzstr 3 4 = '':'' then 4 else 3) tzstr)) of
                  None \<Rightarrow> None
                | Some minutes \<Rightarrow>
                    if hours = 0 \<and> minutes = 0 then Some 0
                    else if minutes > 59 then None
                    else if hours > 23 then None
                    else Some ((if slice tzstr 0 1 = ''-'' then - 1 else 1)
                               * (hours * 60 + minutes) * 60)))"

text \<open>
  The fraction of a second, matched by the regular expression \<^verbatim>\<open>[\.,]([0-9]+)\<close> at the
  start of \<open>s\<close>: the microseconds of its first six digits and the length of the match.
\<close>

definition match_fraction :: "string \<Rightarrow> (int \<times> nat) option" where
  "match_fraction s =
     (case s of
        [] \<Rightarrow> None
      | c # cs \<Rightarrow>
          let ds = takeWhile (\<lambda>d. digit_val d \<noteq> None) cs;
              us_str = take 6 ds
          in if (c = CHR ''.'' \<or> c = CHR '','') \<and> ds \<noteq> [] then
               Some (foldl (\<lambda>acc d. 10 * acc + (of_char d - 48)) 0 us_str
                       * 10 ^ (6 - length us_str),
                     Suc (length ds))
             else None)"

text \<open>
  The loop of \<^verbatim>\<open>_parse_isotime\<close>, entered with the value \<open>idx\<close> that the loop variable
  \<^verbatim>\<open>comp\<close> has after its increment: the hour, the minute and the second (0 to 2), the fraction (3),
  and on every round the test for the start of a time zone.
\<close>

function parse_isotime_from ::
  "string \<Rightarrow> nat \<Rightarrow> nat \<Rightarrow> bool \<Rightarrow> int \<times> int \<times> int \<times> int \<times> int option \<Rightarrow>
   ((int \<times> int \<times> int \<times> int \<times> int option) \<times> nat) option" where
  "parse_isotime_from timestr idx pos has_sep components =
     (if \<not> (pos < length timestr \<and> idx < 6) then Some (components, pos)
      else if slice timestr pos (pos + 1) \<in> set [''-'', ''+'', ''Z'', ''z''] then
        (case parse_tzstr (drop pos timestr) of
           None \<Rightarrow> None
         | Some tz \<Rightarrow>
             (case components of
                (h, mi, s, us, no_tz) \<Rightarrow> Some ((h, mi, s, us, Some tz), length timestr)))
      else if idx = 2 \<and> has_sep \<and> slice timestr pos (pos + 1) \<noteq> '':'' then None
      else
        let colon = (idx = 1 \<and> slice timestr pos (pos + 1) = '':'');
            pos = (if colon \<or> idx = 2 \<and> has_sep then pos + 1 else pos)
        in if idx < 3 then
             (case py_int (slice timestr pos (pos + 2)) of
                None \<Rightarrow> None
              | Some v \<Rightarrow>
                  (case components of
                     (h, mi, s, us, tz) \<Rightarrow>
                       parse_isotime_from timestr (idx + 1) (pos + 2) (has_sep \<or> colon)
                         (if idx = 0 then (v, mi, s, us, tz)
                          else if idx = 1 then (h, v, s, us, tz)
                          else (h, mi, v, us, tz))))
           else if idx = 3 then
             (case match_fraction (drop pos timestr) of
                None \<Rightarrow> parse_isotime_from timestr (idx + 1) pos has_sep components
              | Some (v, n) \<Rightarrow>
                  (case components of
                     (h, mi, s, us, tz) \<Rightarrow>
                       parse_isotime_from timestr (idx + 1) (pos + n) has_sep (h, mi, s, v, tz)))
           else parse_isotime_from timestr (idx + 1) pos has_sep components)"
  by pat_completeness auto
termination
  by (relation "measure (\<lambda>(timestr, idx, pos, has_sep, components). 6 - idx)") auto

text \<open>\<^verbatim>\<open>_parse_isotime\<close>; hour 24 stands for midnight and admits no other field.\<close>

definition parse_isotime :: "string \<Rightarrow> (int \<times> int \<times> int \<times> int \<times> int option) option" where
  "parse_isotime timestr =
     (if length timestr < 2 then None
      else case parse_isotime_from timestr 0 0 False (0, 0, 0, 0, None) of
             None \<Rightarrow> None
           | Some ((h, mi, s, us, tz), pos) \<Rightarrow>
               if pos < length timestr then None
               else if h = 24 \<and> (mi \<noteq> 0 \<or> s \<noteq> 0 \<or> us \<noteq> 0) then None
               else Some (h, mi, s, us, tz))"

text \<open>
  \<^verbatim>\<open>isoparser.isoparse\<close> with what it raises: the date, then, after one character that
  separates them, the time; hour 24 gives midnight of the next day. A string with a
  character outside ASCII is refused at once.
\<close>

definition dateutil_isoparse :: "string \<Rightarrow> exn + datetime" where
  "dateutil_isoparse dt_str =
     (if \<not> list_all is_ascii dt_str then Inl ValueError
      else case parse_isodate dt_str of
             Inl e \<Rightarrow> Inl e
           | Inr (ymd, pos) \<Rightarrow>
               if length dt_str > pos then
                 (case parse_isotime (drop (pos + 1) dt_str) of
                    None \<Rightarrow> Inl ValueError
                  | Some (h, mi, s, us, tz) \<Rightarrow>
                      if h = 24 then
                        (case datetime_of_fields ymd (0, mi, s, us, tz) of
                           None \<Rightarrow> Inl ValueError
                         | Some t \<Rightarrow>
                             if date_of t \<ge> max_ordinal then Inl OverflowError
                             else Inr (t\<lparr>naive := naive t + timedelta_days 1\<rparr>))
                      else (case datetime_of_fields ymd (h, mi, s, us, tz) of
                              None \<Rightarrow> Inl ValueError
                            | Some t \<Rightarrow> Inr t))
               else (case datetime_of_fields ymd (0, 0, 0, 0, None) of
                       None \<Rightarrow> Inl ValueError
                     | Some t \<Rightarrow> Inr t))"

text \<open>
  The value of \<^verbatim>\<open>parser.isoparse(s)\<close>, \<open>None\<close> when the call raises, and the exception
  that it raises then.
\<close>

definition isoparse :: "string \<Rightarrow> datetime option" where
  "isoparse s = (case dateutil_isoparse s of Inl e \<Rightarrow> None | Inr t \<Rightarrow> Some t)"

definition isoparse_error :: "string \<Rightarrow> exn" where
  "isoparse_error s = (case dateutil_isoparse s of Inl e \<Rightarrow> e | Inr t \<Rightarrow> ValueError)"

section \<open>State and bookmarks (singer)\<close>

text \<open>
  The state is the dictionary \<^verbatim>\<open>{"bookmarks": {stream: {account: {"date_start": iso}}}}\<close>.
  \<open>bookmarks\<close> is \<open>None\<close> when the key \<^verbatim>\<open>"bookmarks"\<close> is absent; \<open>other_keys\<close> holds
  the other top-level entries, which this program never reads. An account's entry is the
  dictionary that \<^verbatim>\<open>__advance_bookmark\<close> stores. A dictionary is the list of its items
  in insertion order; \<open>map_of\<close> looks a key up and \<open>AList.update\<close> assigns to a key
  (in place when the key is present, at the end otherwise).
\<close>

type_synonym account_record = "(string \<times> string) list"

record state =
  bookmarks :: "(string \<times> (string \<times> account_record) list) list option"
  other_keys :: "(string \<times> string) list"

definition bookmark_key :: string where
  "bookmark_key = ''date_start''"

text \<open>\<^verbatim>\<open>not state\<close>: the empty dictionary.\<close>

definition state_empty :: "state \<Rightarrow> bool" where
  "state_empty st \<longleftrightarrow> bookmarks st = None \<and> other_keys st = []"

text \<open>
  \<^verbatim>\<open>singer.get_bookmark(state, tap_stream_id, key)\<close> is
  \<^verbatim>\<open>state.get('bookmarks', {}).get(tap_stream_id, {}).get(key, None)\<close>.
\<close>

definition get_bookmark :: "state \<Rightarrow> string \<Rightarrow> string \<Rightarrow> account_record option" where
  "get_bookmark st tap_stream_id key =
     (case bookmarks st of
        None \<Rightarrow> None
      | Some bm \<Rightarrow>
          (case map_of bm tap_stream_id of
             None \<Rightarrow> None
           | Some accounts \<Rightarrow> map_of accounts key))"

text \<open>
  \<^verbatim>\<open>singer.write_bookmark(state, tap_stream_id, key, val)\<close> creates the path
  \<^verbatim>\<open>state['bookmarks'][tap_stream_id]\<close> where it is missing and then assigns
  \<^verbatim>\<open>state['bookmarks'][tap_stream_id][key] = val\<close>: the account's entry is replaced as a
  whole.
\<close>

definition write_bookmark :: "state \<Rightarrow> string \<Rightarrow> string \<Rightarrow> account_record \<Rightarrow> state" where
  "write_bookmark st tap_stream_id key val =
     (let bm = (case bookmarks st of None \<Rightarrow> [] | Some b \<Rightarrow> b);
          accounts = (case map_of bm tap_stream_id of None \<Rightarrow> [] | Some a \<Rightarrow> a)
      in st\<lparr>bookmarks :=
              Some (AList.update tap_stream_id (AList.update key val accounts) bm)\<rparr>)"

text \<open>The bookmark value stored for an account, if any.\<close>

definition stored_bookmark :: "string \<Rightarrow> string \<Rightarrow> state \<Rightarrow> string option" where
  "stored_bookmark tap_stream_id account_id st =
     (case get_bookmark st tap_stream_id account_id of
        None \<Rightarrow> None
      | Some r \<Rightarrow> map_of r bookmark_key)"

section \<open>Observable effects\<close>

text \<open>An insight row, \<^verbatim>\<open>dict(ads_insight)\<close>.\<close>

type_synonym insight = "(string \<times> string) list"

text \<open>The status report of an asynchronous job, as \<^verbatim>\<open>async_job.api_get()\<close> returns it.\<close>

record report_run =
  run_id :: string
  async_status :: string
  async_percent_completion :: int
  time_ref :: int
  time_completed :: int

datatype log_message =
    Job_failed string string
  | Job_finished string int int
  | Job_status string string
  | Retrying_in_20s

datatype event =
    Get_insights string string string
  | Api_get
  | Sleep nat
  | Log_error log_message
  | Log_info log_message
  | Log_warning log_message
  | Write_record string insight
  | Write_state state

text \<open>
  The effects are recorded in the order in which the program performs them:
  \<open>Get_insights account since until\<close> is the submission
  \<^verbatim>\<open>AdSet(account_id).get_insights(..., is_async=True)\<close> with its time range,
  \<open>Api_get\<close> one status poll, \<open>Sleep n\<close> is \<^verbatim>\<open>time.sleep(n)\<close>, \<open>Write_record\<close> and
  \<open>Write_state\<close> are \<^verbatim>\<open>singer.write_record\<close> and \<^verbatim>\<open>singer.write_state\<close>. The log events are
  those of \<^verbatim>\<open>__run_adreport\<close> and of the retry; \<open>Job_failed id status\<close> is the message
  \<^verbatim>\<open>job<id>(params): failed with status: status\<close>, \<open>Job_finished id time_ref time_completed\<close>
  the message that prints the seconds between the two timestamps, \<open>Job_status id status\<close> the
  message \<^verbatim>\<open>job<id>: status\<close>. The \<^verbatim>\<open>logger.info\<close> lines of \<^verbatim>\<open>process_account\<close> and
  \<^verbatim>\<open>__get_start\<close>, which only print values, and the record counter are left out.
\<close>

definition written_states :: "event list \<Rightarrow> state list" where
  "written_states evs = concat (map (\<lambda>e. case e of Write_state s \<Rightarrow> [s] | _ \<Rightarrow> []) evs)"

definition written_records :: "event list \<Rightarrow> insight list" where
  "written_records evs = concat (map (\<lambda>e. case e of Write_record s r \<Rightarrow> [r] | _ \<Rightarrow> []) evs)"

text \<open>The number of submissions of a report job.\<close>

definition submissions :: "event list \<Rightarrow> nat" where
  "submissions evs =
     length (filter (\<lambda>e. case e of Get_insights a since until \<Rightarrow> True | _ \<Rightarrow> False) evs)"

text \<open>The messages on the output stream: the records and the states, in order.\<close>

definition singer_output :: "event list \<Rightarrow> event list" where
  "singer_output evs =
     filter (\<lambda>e. case e of Write_record s r \<Rightarrow> True | Write_state s \<Rightarrow> True | _ \<Rightarrow> False) evs"

definition emitted_keys :: "event list \<Rightarrow> string list" where
  "emitted_keys evs =
     concat (map (\<lambda>e. case e of
                        Write_record s r \<Rightarrow> (case map_of r bookmark_key of None \<Rightarrow> [] | Some k \<Rightarrow> [k])
                      | _ \<Rightarrow> []) evs)"

section \<open>\<^verbatim>\<open>__advance_bookmark\<close>\<close>

text \<open>
  The values that reach the parameter \<^verbatim>\<open>bookmark\<close>: \<^verbatim>\<open>None\<close>, a string, a
  \<^verbatim>\<open>datetime\<close>, a \<^verbatim>\<open>date\<close>, or an object of another type with its truth value.
\<close>

datatype bookmark =
    B_None
  | B_str string
  | B_datetime datetime
  | B_date date
  | B_other bool

fun truthy :: "bookmark \<Rightarrow> bool" where
  "truthy B_None = False"
| "truthy (B_str s) = (s \<noteq> [])"
| "truthy (B_datetime t) = True"
| "truthy (B_date d) = True"
| "truthy (B_other b) = b"

text \<open>The \<^verbatim>\<open>isinstance\<close> chain of lines 245 to 254.\<close>

fun bookmark_datetime :: "bookmark \<Rightarrow> exn + datetime" where
  "bookmark_datetime (B_datetime t) = Inr t"
| "bookmark_datetime (B_str s) =
     (case isoparse s of None \<Rightarrow> Inl (isoparse_error s) | Some t \<Rightarrow> Inr t)"
| "bookmark_datetime (B_date d) =
     (case isoparse (date_isoformat d) of
        None \<Rightarrow> Inl (isoparse_error (date_isoformat d))
      | Some t \<Rightarrow> Inr t)"
| "bookmark_datetime b = Inl ValueError"

definition advance_bookmark ::
  "string \<Rightarrow> state \<Rightarrow> bookmark \<Rightarrow> string \<Rightarrow> (exn + state) \<times> event list" where
  "advance_bookmark account_id st bookmark tap_stream_id =
     (if \<not> truthy bookmark then (Inr st, [Write_state st])
      else case bookmark_datetime bookmark of
             Inl e \<Rightarrow> (Inl e, [])
           | Inr t \<Rightarrow>
               let st' = write_bookmark st tap_stream_id account_id
                           [(bookmark_key, isoformat t)]
               in (Inr st', [Write_state st']))"

section \<open>\<^verbatim>\<open>__get_start\<close> and the adjustment of the start date\<close>

record config =
  start_date :: "string option"

text \<open>
  \<open>now\<close> is the reading of \<^verbatim>\<open>datetime.utcnow()\<close> in line 165. The configured start
  date loses its time zone (\<^verbatim>\<open>replace(tzinfo=None)\<close> in line 169, which keeps the fields);
  the bookmark is returned as it is parsed (line 186).
\<close>

definition get_start ::
  "config \<Rightarrow> naive_datetime \<Rightarrow> string \<Rightarrow> state \<Rightarrow> string \<Rightarrow> exn + datetime" where
  "get_start cfg now account_id st tap_stream_id =
     (case (case start_date cfg of
              None \<Rightarrow> Inr \<lparr>naive = now + timedelta_weeks 4, utcoffset = None\<rparr>
            | Some config_start_date \<Rightarrow>
                if config_start_date = []
                then Inr \<lparr>naive = now + timedelta_weeks 4, utcoffset = None\<rparr>
                else (case isoparse config_start_date of
                        None \<Rightarrow> Inl (isoparse_error config_start_date)
                      | Some t \<Rightarrow> Inr (t\<lparr>utcoffset := None\<rparr>))) of
        Inl e \<Rightarrow> Inl e
      | Inr default_date \<Rightarrow>
          if state_empty st then Inr default_date
          else (case get_bookmark st tap_stream_id account_id of
                  None \<Rightarrow> Inr default_date
                | Some account_record \<Rightarrow>
                    if account_record = [] then Inr default_date
                    else (case map_of account_record bookmark_key of
                            None \<Rightarrow> Inr default_date
                          | Some current_bookmark \<Rightarrow>
                              if current_bookmark = [] then Inr default_date
                              else (case isoparse current_bookmark of
                                      None \<Rightarrow> Inl (isoparse_error current_bookmark)
                                    | Some t \<Rightarrow> Inr t))))"

text \<open>
  Lines 41 to 44. \<open>now1\<close> and \<open>now2\<close> are the readings of \<^verbatim>\<open>datetime.utcnow()\<close> in the
  test and in the assignment. The subtraction of line 41 raises TypeError when the start
  has a \<^verbatim>\<open>tzinfo\<close>, the clock reading being naive.
\<close>

definition adjust_start ::
  "naive_datetime \<Rightarrow> naive_datetime \<Rightarrow> datetime \<Rightarrow> exn + datetime" where
  "adjust_start now1 now2 start =
     (case utcoffset start of
        Some off \<Rightarrow> Inl TypeError
      | None \<Rightarrow>
          if now1 - naive start > timedelta_days (37 * 30)
          then Inr \<lparr>naive = now2 - timedelta_days (36 * 30), utcoffset = None\<rparr>
          else Inr (start\<lparr>naive := naive start - timedelta_days 1\<rparr>))"

section \<open>Date-range partitioning (\<^verbatim>\<open>process_account\<close>, lines 82 to 102)\<close>

text \<open>
  The \<^verbatim>\<open>while True\<close> loop of the chunking branch. It returns the value of
  \<^verbatim>\<open>from_date\<close> at the \<^verbatim>\<open>break\<close> together with the ranges collected so far.
\<close>

function chunk_dates :: "date \<Rightarrow> date \<Rightarrow> (date \<times> date) list \<Rightarrow> date \<times> (date \<times> date) list" where
  "chunk_dates from_date until time_ranges =
     (let to_date = from_date + 1 in
      if to_date > until then (from_date, time_ranges)
      else chunk_dates (to_date + 1) until (time_ranges @ [(from_date, to_date)]))"
  by pat_completeness auto
termination
  by (relation "measure (\<lambda>(f, u, r). nat (u - f + 1))") auto

definition time_ranges :: "date \<Rightarrow> date \<Rightarrow> (date \<times> date) list" where
  "time_ranges since until =
     (if until - since > 1 then
        (case chunk_dates since until [] of
           (from_date, rs) \<Rightarrow> if from_date \<le> until then rs @ [(from_date, until)] else rs)
      else [(since, until)])"

text \<open>
  Helper predicate for the proofs: the ranges \<open>rs\<close> tile the days from \<open>s\<close> up to, but
  not including, \<open>e\<close>, each range holding one or two days.
\<close>

fun tiles :: "date \<Rightarrow> (date \<times> date) list \<Rightarrow> date \<Rightarrow> bool" where
  "tiles s [] e = (e = s)"
| "tiles s ((a, b) # rs) e = (a = s \<and> a \<le> b \<and> b \<le> a + 1 \<and> tiles (b + 1) rs e)"

section \<open>The asynchronous report job (\<^verbatim>\<open>__run_adreport\<close>)\<close>

text \<open>
  What the remote platform answers to one execution of the body of the retry loop of
  \<^verbatim>\<open>process_account\<close>: whether the submission raises, the answers to the successive
  status polls (each a status report or an exception), the rows that iterating
  \<^verbatim>\<open>get_result()\<close> yields, and the exception, if any, with which \<^verbatim>\<open>get_result()\<close> or the
  iteration ends after these rows.
\<close>

record attempt =
  submit_error :: "exn option"
  polls :: "(exn + report_run) list"
  results :: "insight list"
  results_error :: "exn option"

text \<open>
  The polling loop of lines 199 to 232 over the answers of the platform. The value is
  \<open>None\<close> when the answers end before the loop returns (the loop itself has no bound),
  \<open>Some (Inl e)\<close> when a poll raises, and \<open>Some (Inr job)\<close> when the function returns its
  handle, which \<^verbatim>\<open>api_get\<close> has refreshed to the last status report \<open>job\<close>. A status outside
  the lists of lines 206 and 223 polls again at once.
\<close>

fun poll_job :: "(exn + report_run) list \<Rightarrow> (exn + report_run) option \<times> event list" where
  "poll_job [] = (None, [])"
| "poll_job (Inl e # rest) = (Some (Inl e), [Api_get])"
| "poll_job (Inr job # rest) =
     (if async_status job \<in> set [''Job Skipped'', ''Job Failed''] then
        (Some (Inr job), [Api_get, Log_error (Job_failed (run_id job) (async_status job))])
      else if async_status job = ''Job Completed'' \<and> async_percent_completion job = 100 then
        (Some (Inr job),
         [Api_get, Log_info (Job_finished (run_id job) (time_ref job) (time_completed job))])
      else if async_status job \<in>
                set [''Job Not Started'', ''Job Started'', ''Job Running'', ''Job Completed''] then
        (case poll_job rest of
           (r, evs) \<Rightarrow>
             (r, [Api_get, Log_info (Job_status (run_id job) (async_status job)), Sleep 2] @ evs))
      else (case poll_job rest of (r, evs) \<Rightarrow> (r, Api_get # evs)))"

definition run_adreport ::
  "string \<Rightarrow> date \<times> date \<Rightarrow> attempt \<Rightarrow> (exn + report_run) option \<times> event list" where
  "run_adreport account_id rg a =
     (case submit_error a of
        Some e \<Rightarrow>
          (Some (Inl e),
           [Get_insights account_id (date_isoformat (fst rg)) (date_isoformat (snd rg))])
      | None \<Rightarrow>
          (case poll_job (polls a) of
             (r, evs) \<Rightarrow>
               (r, Get_insights account_id (date_isoformat (fst rg)) (date_isoformat (snd rg))
                     # evs)))"

section \<open>\<^verbatim>\<open>process_account\<close>\<close>

text \<open>
  How a part of \<^verbatim>\<open>process_account\<close> ends: it completes, it raises, or the platform's
  answers end inside the polling loop. With it come the state, the local variable
  \<^verbatim>\<open>prev_bookmark\<close> (in the loops \<^verbatim>\<open>None\<close> or the \<^verbatim>\<open>date_start\<close> string of a row) and the
  effects so far. \<^verbatim>\<open>singer.write_bookmark\<close> updates the caller's dictionary in place, so
  \<open>run_state\<close> is also the content of that dictionary when an exception leaves the
  function.
\<close>

datatype outcome = Returned | Raised exn | Unanswered

record run =
  outcome :: outcome
  run_state :: state
  prev_bookmark :: "string option"
  events :: "event list"

definition before :: "event list \<Rightarrow> run \<Rightarrow> run" where
  "before evs r = r\<lparr>events := evs @ events r\<rparr>"

text \<open>
  Lines 125 to 138, the loop over the rows of one result. A row without the key
  \<^verbatim>\<open>date_start\<close> raises KeyError after it has been written.
\<close>

fun emit_records :: "string \<Rightarrow> string \<Rightarrow> insight list \<Rightarrow> state \<Rightarrow> string option \<Rightarrow> run" where
  "emit_records account_id tap_stream_id [] st prev =
     \<lparr>outcome = Returned, run_state = st, prev_bookmark = prev, events = []\<rparr>"
| "emit_records account_id tap_stream_id (insight # rest) st prev =
     (case map_of insight bookmark_key of
        None \<Rightarrow>
          \<lparr>outcome = Raised KeyError, run_state = st, prev_bookmark = prev,
           events = [Write_record tap_stream_id insight]\<rparr>
      | Some new_bookmark \<Rightarrow>
          let prev1 = (case prev of
                         None \<Rightarrow> new_bookmark
                       | Some p \<Rightarrow> if p = [] then new_bookmark else p)
          in if prev1 < new_bookmark then
               (case advance_bookmark account_id st (B_str prev1) tap_stream_id of
                  (Inl e, evs) \<Rightarrow>
                    \<lparr>outcome = Raised e, run_state = st, prev_bookmark = Some prev1,
                     events = Write_record tap_stream_id insight # evs\<rparr>
                | (Inr st', evs) \<Rightarrow>
                    before (Write_record tap_stream_id insight # evs)
                      (emit_records account_id tap_stream_id rest st' (Some new_bookmark)))
             else before [Write_record tap_stream_id insight]
                    (emit_records account_id tap_stream_id rest st (Some prev1)))"

text \<open>
  The platform completes the attempt \<open>a\<close>: the submission and the polls raise nothing,
  the polling loop returns, and iterating the result yields exactly \<open>rows\<close> and raises
  nothing.
\<close>

definition answers_with :: "attempt \<Rightarrow> insight list \<Rightarrow> bool" where
  "answers_with a rows \<longleftrightarrow>
     submit_error a = None
     \<and> (case fst (poll_job (polls a)) of Some (Inr handle) \<Rightarrow> True | _ \<Rightarrow> False)
     \<and> results a = rows \<and> results_error a = None"

text \<open>Lines 120 to 140, the body of the retry loop for one range.\<close>

definition run_attempt ::
  "string \<Rightarrow> string \<Rightarrow> date \<times> date \<Rightarrow> attempt \<Rightarrow> state \<Rightarrow> string option \<Rightarrow> run" where
  "run_attempt account_id tap_stream_id rg a st prev =
     (case run_adreport account_id rg a of
        (None, evs) \<Rightarrow>
          \<lparr>outcome = Unanswered, run_state = st, prev_bookmark = prev, events = evs\<rparr>
      | (Some (Inl e), evs) \<Rightarrow>
          \<lparr>outcome = Raised e, run_state = st, prev_bookmark = prev, events = evs\<rparr>
      | (Some (Inr handle), evs) \<Rightarrow>
          (let r = emit_records account_id tap_stream_id (results a) st prev
           in before evs
                (case outcome r of
                   Returned \<Rightarrow>
                     (case results_error a of None \<Rightarrow> r | Some e \<Rightarrow> r\<lparr>outcome := Raised e\<rparr>)
                 | _ \<Rightarrow> r)))"

text \<open>The test of line 149 on the exception caught in line 141.\<close>

fun temporary_async_error :: "outcome \<Rightarrow> bool" where
  "temporary_async_error (Raised (FacebookRequestError code subcode)) =
     (code = Some 2601 \<and> subcode = Some 1815107)"
| "temporary_async_error _ = False"

text \<open>
  The platform's behaviour during one call of \<^verbatim>\<open>process_account\<close>: its answers to the
  execution number \<open>attempt\<close> (counted from 0) of the retry loop for a range.
\<close>

type_synonym remote = "date \<times> date \<Rightarrow> nat \<Rightarrow> attempt"

text \<open>Lines 117 to 155, the retry loop for one range, entered with \<open>attempt\<close>.\<close>

function retry_range ::
  "remote \<Rightarrow> string \<Rightarrow> string \<Rightarrow> date \<times> date \<Rightarrow> nat \<Rightarrow> state \<Rightarrow> string option \<Rightarrow> run" where
  "retry_range remote account_id tap_stream_id rg attempt st prev =
     (let r = run_attempt account_id tap_stream_id rg (remote rg attempt) st prev
      in if temporary_async_error (outcome r) \<and> attempt < 5 then
           before (events r @ [Log_warning Retrying_in_20s, Sleep 20])
             (retry_range remote account_id tap_stream_id rg (attempt + 1)
                (run_state r) (prev_bookmark r))
         else r)"
  by pat_completeness auto
termination
  by (relation "measure (\<lambda>(remote, account_id, tap_stream_id, rg, attempt, st, prev). 5 - attempt)")
    auto

text \<open>Lines 104 to 155, the loop over the ranges.\<close>

fun process_ranges ::
  "remote \<Rightarrow> string \<Rightarrow> string \<Rightarrow> (date \<times> date) list \<Rightarrow> state \<Rightarrow> string option \<Rightarrow> run" where
  "process_ranges remote account_id tap_stream_id [] st prev =
     \<lparr>outcome = Returned, run_state = st, prev_bookmark = prev, events = []\<rparr>"
| "process_ranges remote account_id tap_stream_id (rg # rgs) st prev =
     (let r = retry_range remote account_id tap_stream_id rg 0 st prev
      in case outcome r of
           Returned \<Rightarrow>
             before (events r)
               (process_ranges remote account_id tap_stream_id rgs (run_state r) (prev_bookmark r))
         | _ \<Rightarrow> r)"

text \<open>The value of \<^verbatim>\<open>prev_bookmark\<close> as an argument of \<^verbatim>\<open>__advance_bookmark\<close>.\<close>

definition as_bookmark :: "string option \<Rightarrow> bookmark" where
  "as_bookmark prev = (case prev of None \<Rightarrow> B_None | Some s \<Rightarrow> B_str s)"

text \<open>Lines 156 to 158, the handler of an exception \<open>e\<close> raised in the loop over the ranges.\<close>

definition flush_on_error :: "string \<Rightarrow> string \<Rightarrow> exn \<Rightarrow> state \<Rightarrow> string option \<Rightarrow> run" where
  "flush_on_error account_id tap_stream_id e st prev =
     (case advance_bookmark account_id st (as_bookmark prev) tap_stream_id of
        (Inl e', evs) \<Rightarrow>
          \<lparr>outcome = Raised e', run_state = st, prev_bookmark = prev, events = evs\<rparr>
      | (Inr st', evs) \<Rightarrow>
          \<lparr>outcome = Raised e, run_state = st', prev_bookmark = prev, events = evs\<rparr>)"

text \<open>Lines 159 to 162, after the loop over the ranges has completed.\<close>

definition finish_account :: "string \<Rightarrow> string \<Rightarrow> date \<Rightarrow> state \<Rightarrow> string option \<Rightarrow> run" where
  "finish_account account_id tap_stream_id until st prev =
     (let final = (if truthy (as_bookmark prev) then as_bookmark prev else B_date until)
      in case advance_bookmark account_id st final tap_stream_id of
           (Inl e, evs) \<Rightarrow>
             \<lparr>outcome = Raised e, run_state = st, prev_bookmark = prev, events = evs\<rparr>
         | (Inr st', evs) \<Rightarrow>
             \<lparr>outcome = Returned, run_state = st', prev_bookmark = prev, events = evs\<rparr>)"

text \<open>
  Modelled from the spec: \<^verbatim>\<open>utils.parse_date\<close> is not among the sources. The spec's
  end-to-end example (a bookmark of 2024-01-05 gives ranges from 2024-01-04) takes the
  calendar day of the adjusted start, as \<^verbatim>\<open>Facebook.__parse_date\<close> of the client does for a
  \<^verbatim>\<open>datetime\<close>.
\<close>

definition parse_date :: "datetime \<Rightarrow> date" where
  "parse_date t = date_of t"

text \<open>
  The clock readings of one call: \<^verbatim>\<open>datetime.utcnow()\<close> in \<^verbatim>\<open>__get_start\<close>, in the test
  of line 41 and in the assignment of line 42, and \<^verbatim>\<open>date.today()\<close> in line 77.
\<close>

record clock =
  utcnow_start :: naive_datetime
  utcnow_test :: naive_datetime
  utcnow_clamp :: naive_datetime
  today :: date

definition resolve_start :: "config \<Rightarrow> clock \<Rightarrow> string \<Rightarrow> state \<Rightarrow> string \<Rightarrow> exn + datetime" where
  "resolve_start cfg clk account_id st tap_stream_id =
     (case get_start cfg (utcnow_start clk) account_id st tap_stream_id of
        Inl e \<Rightarrow> Inl e
      | Inr start \<Rightarrow> adjust_start (utcnow_test clk) (utcnow_clamp clk) start)"

definition process_account ::
  "config \<Rightarrow> clock \<Rightarrow> remote \<Rightarrow> string \<Rightarrow> string \<Rightarrow> state \<Rightarrow> run" where
  "process_account cfg clk remote account_id tap_stream_id st =
     (case resolve_start cfg clk account_id st tap_stream_id of
        Inl e \<Rightarrow> \<lparr>outcome = Raised e, run_state = st, prev_bookmark = None, events = []\<rparr>
      | Inr start \<Rightarrow>
          let since = parse_date start;
              until = today clk - 1;
              r = process_ranges remote account_id tap_stream_id (time_ranges since until) st None
          in case outcome r of
               Returned \<Rightarrow>
                 before (events r)
                   (finish_account account_id tap_stream_id until (run_state r) (prev_bookmark r))
             | Raised e \<Rightarrow>
                 before (events r)
                   (flush_on_error account_id tap_stream_id e (run_state r) (prev_bookmark r))
             | Unanswered \<Rightarrow> r)"

section \<open>The HTTP client (\<^verbatim>\<open>client.py\<close>)\<close>

subsection \<open>Decoded JSON and the Python operations on it\<close>

text \<open>
  A decoded JSON value. Numbers are integers, as the codes and the waiting time of the
  platform are.
\<close>

datatype json =
    J_null
  | J_bool bool
  | J_int int
  | J_str string
  | J_list "json list"
  | J_dict "(string \<times> json) list"

text \<open>The truth value of a decoded value (\<^verbatim>\<open>not x\<close> is its negation).\<close>

fun py_truthy :: "json \<Rightarrow> bool" where
  "py_truthy J_null = False"
| "py_truthy (J_bool b) = b"
| "py_truthy (J_int n) = (n \<noteq> 0)"
| "py_truthy (J_str s) = (s \<noteq> [])"
| "py_truthy (J_list xs) = (xs \<noteq> [])"
| "py_truthy (J_dict kvs) = (kvs \<noteq> [])"

fun starts_with :: "string \<Rightarrow> string \<Rightarrow> bool" where
  "starts_with [] ys = True"
| "starts_with (x # xs) [] = False"
| "starts_with (x # xs) (y # ys) = (x = y \<and> starts_with xs ys)"

fun contains_str :: "string \<Rightarrow> string \<Rightarrow> bool" where
  "contains_str xs [] = (xs = [])"
| "contains_str xs (y # ys) = (starts_with xs (y # ys) \<or> contains_str xs ys)"

text \<open>
  \<^verbatim>\<open>key in obj\<close> for a string \<open>key\<close>: a key of a dictionary, an element of a list, a
  substring of a string; TypeError for the other values.
\<close>

fun py_contains :: "string \<Rightarrow> json \<Rightarrow> exn + bool" where
  "py_contains key (J_dict kvs) = Inr (key \<in> set (map fst kvs))"
| "py_contains key (J_list xs) = Inr (J_str key \<in> set xs)"
| "py_contains key (J_str s) = Inr (contains_str key s)"
| "py_contains key v = Inl TypeError"

text \<open>\<^verbatim>\<open>obj[key]\<close> for a string \<open>key\<close>.\<close>

fun py_getitem :: "json \<Rightarrow> string \<Rightarrow> exn + json" where
  "py_getitem (J_dict kvs) key = (case map_of kvs key of None \<Rightarrow> Inl KeyError | Some v \<Rightarrow> Inr v)"
| "py_getitem v key = Inl TypeError"

text \<open>\<^verbatim>\<open>d.get(key, default)\<close> on the items of a dictionary.\<close>

definition dict_get :: "(string \<times> json) list \<Rightarrow> string \<Rightarrow> json \<Rightarrow> json" where
  "dict_get kvs key dflt = (case map_of kvs key of None \<Rightarrow> dflt | Some v \<Rightarrow> v)"

text \<open>The values that \<^verbatim>\<open>for x in obj\<close> runs through.\<close>

fun py_iter :: "json \<Rightarrow> exn + json list" where
  "py_iter (J_list xs) = Inr xs"
| "py_iter (J_dict kvs) = Inr (map (\<lambda>kv. J_str (fst kv)) kvs)"
| "py_iter (J_str s) = Inr (map (\<lambda>c. J_str [c]) s)"
| "py_iter v = Inl TypeError"

text \<open>
  The seconds that \<^verbatim>\<open>time.sleep(wait_time_in_minutes * 60)\<close> sleeps, for a truthy value:
  a negative number makes \<^verbatim>\<open>time.sleep\<close> raise ValueError, \<^verbatim>\<open>True\<close> counts as 1, and a
  string, list or dictionary is no number of seconds.
\<close>

fun sleep_seconds :: "json \<Rightarrow> exn + nat" where
  "sleep_seconds (J_int n) = (if n < 0 then Inl ValueError else Inr (nat (n * 60)))"
| "sleep_seconds (J_bool b) = Inr (if b then 60 else 0)"
| "sleep_seconds v = Inl TypeError"

subsection \<open>\<^verbatim>\<open>is_throttle\<close>\<close>

definition RATE_LIMIT_SUBCODE :: int where "RATE_LIMIT_SUBCODE = 2446079"
definition ADS_INSIGHTS_CODE :: int where "ADS_INSIGHTS_CODE = 80000"
definition CUSTOM_AUDIENCE_CODE :: int where "CUSTOM_AUDIENCE_CODE = 80003"
definition ADS_MANAGEMENT :: int where "ADS_MANAGEMENT = 80004"

text \<open>
  The response attached to a request exception: \<open>body\<close> is what \<^verbatim>\<open>response.json()\<close>
  returns, \<open>None\<close> when it raises; the header names are in lower case.
\<close>

record response =
  status_code :: int
  headers :: "(string \<times> string) list"
  body :: "json option"

text \<open>A \<^verbatim>\<open>requests.exceptions.RequestException\<close> with its \<^verbatim>\<open>response\<close> attribute.\<close>

datatype request_exception = Request_exception "response option"

text \<open>
  The effects of the client: a call of the HTTP session, the line printed before the
  wait that the platform asks for, that wait in seconds, and the wait of the exponential
  backoff, of which \<open>Backoff_sleep n\<close> records the upper bound \<open>n\<close> (the library sleeps a
  random time between 0 and \<open>n\<close> seconds).
\<close>

datatype client_event =
    Request
  | Print_waiting json string
  | Wait nat
  | Backoff_sleep nat

text \<open>
  Lines 48 to 60, the loop over the metadata of one account. \<open>None\<close>: no entry has the
  key and the loop over the accounts goes on.
\<close>

fun scan_metadata :: "string \<Rightarrow> json list \<Rightarrow> ((exn + bool) \<times> client_event list) option" where
  "scan_metadata account_id [] = None"
| "scan_metadata account_id (metadata # rest) =
     (case py_contains ''estimated_time_to_regain_access'' metadata of
        Inl e \<Rightarrow> Some (Inl e, [])
      | Inr False \<Rightarrow> scan_metadata account_id rest
      | Inr True \<Rightarrow>
          (case py_getitem metadata ''estimated_time_to_regain_access'' of
             Inl e \<Rightarrow> Some (Inl e, [])
           | Inr wait_time_in_minutes \<Rightarrow>
               if \<not> py_truthy wait_time_in_minutes then Some (Inr False, [])
               else (case sleep_seconds wait_time_in_minutes of
                       Inl e \<Rightarrow> Some (Inl e, [Print_waiting wait_time_in_minutes account_id])
                     | Inr n \<Rightarrow>
                         Some (Inr False,
                               [Print_waiting wait_time_in_minutes account_id, Wait n]))))"

text \<open>Lines 47 to 62, the loop over the accounts of the usage header.\<close>

fun scan_usage :: "(string \<times> json) list \<Rightarrow> (exn + bool) \<times> client_event list" where
  "scan_usage [] = (Inr False, [])"
| "scan_usage ((account_id, account_metadata) # rest) =
     (case py_iter account_metadata of
        Inl e \<Rightarrow> (Inl e, [])
      | Inr ms \<Rightarrow> (case scan_metadata account_id ms of None \<Rightarrow> scan_usage rest | Some r \<Rightarrow> r))"

text \<open>
  \<open>json_loads\<close> is \<^verbatim>\<open>json.loads\<close> on the text of the usage header, \<open>None\<close> when it
  raises. The result \<open>Inr True\<close> tells the backoff decorator to give up.
\<close>

definition is_throttle ::
  "(string \<Rightarrow> json option) \<Rightarrow> request_exception \<Rightarrow> (exn + bool) \<times> client_event list" where
  "is_throttle json_loads err =
     (case err of
        Request_exception None \<Rightarrow> (Inl AttributeError, [])
      | Request_exception (Some resp) \<Rightarrow>
          (case body resp of
             None \<Rightarrow> (Inl ValueError, [])
           | Some data \<Rightarrow>
               (case py_contains ''error'' data of
                  Inl e \<Rightarrow> (Inl e, [])
                | Inr False \<Rightarrow> (Inr True, [])
                | Inr True \<Rightarrow>
                    (case py_getitem data ''error'' of
                       Inl e \<Rightarrow> (Inl e, [])
                     | Inr (J_dict error) \<Rightarrow>
                         (let code = dict_get error ''code'' (J_int 0);
                              error_subcode = dict_get error ''error_subcode'' (J_int 0);
                              is_transient = dict_get error ''is_transient'' (J_bool False)
                          in if \<not> py_truthy is_transient then (Inr True, [])
                             else if \<not> (code \<in> set [J_int ADS_INSIGHTS_CODE, J_int ADS_MANAGEMENT,
                                                    J_int CUSTOM_AUDIENCE_CODE]
                                        \<and> error_subcode = J_int RATE_LIMIT_SUBCODE)
                             then (Inr False, [])
                             else (case map_of (headers resp) ''x-business-use-case-usage'' of
                                     None \<Rightarrow> (Inr False, [])
                                   | Some use_case_usage_str \<Rightarrow>
                                       if use_case_usage_str = [] then (Inr False, [])
                                       else (case json_loads use_case_usage_str of
                                               None \<Rightarrow> (Inl ValueError, [])
                                             | Some (J_dict use_case_usage) \<Rightarrow>
                                                 scan_usage use_case_usage
                                             | Some v \<Rightarrow> (Inl AttributeError, []))))
                     | Inr v \<Rightarrow> (Inl AttributeError, [])))))"

subsection \<open>\<^verbatim>\<open>Facebook.__do\<close> under \<^verbatim>\<open>backoff.on_exception\<close>\<close>

text \<open>
  What one execution of the body of \<^verbatim>\<open>__do\<close> does: it returns the decoded data, it raises
  a request exception (\<^verbatim>\<open>raise_for_status\<close> or the transport), or it raises something
  else, which the decorator does not catch.
\<close>

datatype call_result =
    Returns json
  | Raises request_exception
  | Raises_other exn

datatype do_outcome =
    Done json
  | Gave_up request_exception
  | Failed exn

text \<open>
  The retry loop of \<^verbatim>\<open>backoff.on_exception(backoff.expo, ..., giveup=is_throttle)\<close>, with
  no \<^verbatim>\<open>max_tries\<close> and no \<^verbatim>\<open>max_time\<close>, over the results of the successive executions;
  \<open>n\<close> counts the waits already drawn from \<^verbatim>\<open>backoff.expo\<close>, whose values are 1, 2, 4, ...
  A request exception is raised to the caller when \<^verbatim>\<open>giveup\<close> returns true; an exception
  inside \<^verbatim>\<open>giveup\<close> leaves the loop as well; otherwise the loop sleeps the next backoff
  wait and calls again. The outcome is \<open>None\<close> when the results end before the loop
  returns (the loop itself has no bound). The \<^verbatim>\<open>ratelimit.limits\<close> decorator around this
  loop is not modelled.
\<close>

fun do_with_backoff ::
  "(string \<Rightarrow> json option) \<Rightarrow> call_result list \<Rightarrow> nat \<Rightarrow> do_outcome option \<times> client_event list" where
  "do_with_backoff json_loads [] n = (None, [])"
| "do_with_backoff json_loads (Returns v # rest) n = (Some (Done v), [Request])"
| "do_with_backoff json_loads (Raises_other e # rest) n = (Some (Failed e), [Request])"
| "do_with_backoff json_loads (Raises err # rest) n =
     (case is_throttle json_loads err of
        (Inl e, evs) \<Rightarrow> (Some (Failed e), Request # evs)
      | (Inr True, evs) \<Rightarrow> (Some (Gave_up err), Request # evs)
      | (Inr False, evs) \<Rightarrow>
          (case do_with_backoff json_loads rest (Suc n) of
             (r, evs') \<Rightarrow> (r, Request # evs @ [Backoff_sleep (2 ^ n)] @ evs')))"

text \<open>
  A transient error with one of the rate-limit codes and the rate-limit subcode, as
  \<^verbatim>\<open>is_throttle\<close> tests it in lines 33 to 39.
\<close>

definition rate_limit_error :: "(string \<times> json) list \<Rightarrow> bool" where
  "rate_limit_error error \<longleftrightarrow>
     py_truthy (dict_get error ''is_transient'' (J_bool False))
     \<and> dict_get error ''code'' (J_int 0)
         \<in> set [J_int ADS_INSIGHTS_CODE, J_int ADS_MANAGEMENT, J_int CUSTOM_AUDIENCE_CODE]
     \<and> dict_get error ''error_subcode'' (J_int 0) = J_int RATE_LIMIT_SUBCODE"

text \<open>
  A list of metadata entries none of which has the key
  \<^verbatim>\<open>estimated_time_to_regain_access\<close>, and the accounts of a usage header whose entries
  are all of that kind.
\<close>

definition metadata_without_wait :: "json list \<Rightarrow> bool" where
  "metadata_without_wait ms \<longleftrightarrow>
     list_all (\<lambda>metadata.
        py_contains ''estimated_time_to_regain_access'' metadata = Inr False) ms"

definition usage_without_wait :: "(string \<times> json) list \<Rightarrow> bool" where
  "usage_without_wait use_case_usage \<longleftrightarrow>
     list_all (\<lambda>(account_id, account_metadata).
        case py_iter account_metadata of
          Inl e \<Rightarrow> False
        | Inr ms \<Rightarrow> metadata_without_wait ms) use_case_usage"

section \<open>What holds of every part of a run\<close>

text \<open>
  What \<^verbatim>\<open>__advance_bookmark\<close> stores for the string \<open>k\<close>: \<open>k\<close> parsed and printed
  again.
\<close>

definition stored_form :: "string \<Rightarrow> string option" where
  "stored_form k = map_option isoformat (isoparse k)"

text \<open>
  The invariant of the loops of \<^verbatim>\<open>process_account\<close>, for a part of a run that starts in
  the state \<open>st\<close> with \<^verbatim>\<open>prev_bookmark\<close> equal to \<open>prev\<close> and ends as \<open>r\<close>:
  without a written record nothing else changes; the state is the last one written; a
  non-empty \<^verbatim>\<open>prev_bookmark\<close> only grows; \<^verbatim>\<open>prev_bookmark\<close> is the key of a written
  record unless it is unchanged; and the bookmarks written for the account are the stored
  forms of strictly increasing keys, none below the initial \<^verbatim>\<open>prev_bookmark\<close> and all
  strictly below the final one.
\<close>

definition segment :: "string \<Rightarrow> string \<Rightarrow> state \<Rightarrow> string option \<Rightarrow> run \<Rightarrow> bool" where
  "segment account_id tap_stream_id st prev r \<longleftrightarrow>
     (written_records (events r) = [] \<longrightarrow>
        written_states (events r) = [] \<and> prev_bookmark r = prev)
     \<and> run_state r = last (st # written_states (events r))
     \<and> (\<forall>p. prev = Some p \<and> p \<noteq> [] \<longrightarrow> (\<exists>p'. prev_bookmark r = Some p' \<and> p \<le> p'))
     \<and> (prev_bookmark r = None \<longrightarrow>
          prev = None \<and> emitted_keys (events r) = [] \<and> written_states (events r) = [])
     \<and> (\<forall>q. prev_bookmark r = Some q \<longrightarrow> prev = Some q \<or> q \<in> set (emitted_keys (events r)))
     \<and> (\<exists>ks. sorted_wrt (<) ks
            \<and> map (stored_bookmark tap_stream_id account_id) (written_states (events r)) =
                map stored_form ks
            \<and> (\<forall>k \<in> set ks.
                  isoparse k \<noteq> None
                  \<and> (\<forall>p. prev = Some p \<and> p \<noteq> [] \<longrightarrow> p \<le> k)
                  \<and> (\<exists>q. prev_bookmark r = Some q \<and> k < q)))"

section \<open>Example data\<close>

text \<open>
  The situation of the spec's end-to-end example: the account \<^verbatim>\<open>act_1\<close> has the
  bookmark 2024-01-05, no start date is configured, and the run takes place on
  2024-01-09 (ordinal 738894), so that \<^verbatim>\<open>until\<close> is 2024-01-08.
\<close>

definition example_state :: state where
  "example_state =
     \<lparr>bookmarks = Some [(''ads_insights'', [(''act_1'', [(''date_start'', ''2024-01-05T00:00:00'')])])],
      other_keys = []\<rparr>"


definition example_clock :: clock where
  "example_clock =
     \<lparr>utcnow_start = 63840470400000000, utcnow_test = 63840470400000007,
      utcnow_clamp = 63840470400000011, today = 738894\<rparr>"

definition completed_job :: report_run where
  "completed_job =
     \<lparr>run_id = ''7'', async_status = ''Job Completed'', async_percent_completion = 100,
      time_ref = 1704787200, time_completed = 1704787230\<rparr>"

text \<open>The status report of a job that has failed.\<close>

definition failed_job :: report_run where
  "failed_job =
     \<lparr>run_id = ''8'', async_status = ''Job Failed'', async_percent_completion = 0,
      time_ref = 0, time_completed = 0\<rparr>"

definition row_of_day :: "string \<Rightarrow> insight" where
  "row_of_day d = [(''ad_id'', ''23''), (''date_start'', d)]"

text \<open>Every attempt completes; \<open>rows\<close> gives the rows of each range.\<close>

definition remote_with :: "(date \<times> date \<Rightarrow> insight list) \<Rightarrow> remote" where
  "remote_with rows rg n =
     \<lparr>submit_error = None, polls = [Inr completed_job], results = rows rg,
      results_error = None\<rparr>"

text \<open>Every submission raises \<open>e\<close>.\<close>

definition remote_raising :: "exn \<Rightarrow> remote" where
  "remote_raising e rg n =
     \<lparr>submit_error = Some e, polls = [], results = [], results_error = None\<rparr>"


text \<open>Two days with two rows each in the first range, one row in the second range.\<close>

definition five_rows :: "date \<times> date \<Rightarrow> insight list" where
  "five_rows rg =
     (if rg = (738889, 738890) then
        [row_of_day ''2024-01-04'', row_of_day ''2024-01-04'',
         row_of_day ''2024-01-05'', row_of_day ''2024-01-05'']
      else if rg = (738891, 738892) then [row_of_day ''2024-01-06'']
      else [])"

text \<open>
  A failed request whose body has no error object, and rate-limited requests: one whose
  usage header asks for one minute, one whose header has an estimated time of 0 in its
  first entry and of 5 minutes in its second, and one whose first entry with an estimated
  time comes after entries without. \<open>example_loads\<close> decodes the texts of these headers.
\<close>

definition plain_failure :: response where
  "plain_failure =
     \<lparr>status_code = 500, headers = [],
      body = Some (J_dict [(''message'', J_str ''Internal Server Error'')])\<rparr>"

definition rate_limit_body :: json where
  "rate_limit_body =
     J_dict [(''error'',
       J_dict [(''message'', J_str ''There have been too many calls''),
               (''type'', J_str ''OAuthException''), (''code'', J_int 80000),
               (''error_subcode'', J_int 2446079), (''is_transient'', J_bool True)])]"

definition throttled :: response where
  "throttled =
     \<lparr>status_code = 400,
      headers = [(''x-business-use-case-usage'',
                  ''{act_1: [{type: ads_insights, estimated_time_to_regain_access: 1}]}'')],
      body = Some rate_limit_body\<rparr>"

definition throttled_zero_first :: response where
  "throttled_zero_first =
     \<lparr>status_code = 400,
      headers = [(''x-business-use-case-usage'',
                  ''{act_1: [{estimated_time_to_regain_access: 0}, {estimated_time_to_regain_access: 5}]}'')],
      body = Some rate_limit_body\<rparr>"

definition throttled_later_entry :: response where
  "throttled_later_entry =
     \<lparr>status_code = 400,
      headers = [(''x-business-use-case-usage'',
                  ''{act_1: [{type: ads_management}], act_2: [{type: ads_insights}, {estimated_time_to_regain_access: 5}, {estimated_time_to_regain_access: 9}]}'')],
      body = Some rate_limit_body\<rparr>"

definition example_loads :: "string \<Rightarrow> json option" where
  "example_loads s =
     (if s = ''{act_1: [{type: ads_insights, estimated_time_to_regain_access: 1}]}'' then
        Some (J_dict [(''act_1'',
                J_list [J_dict [(''type'', J_str ''ads_insights''),
                                (''estimated_time_to_regain_access'', J_int 1)]])])
      else if s = ''{act_1: [{estimated_time_to_regain_access: 0}, {estimated_time_to_regain_access: 5}]}'' then
        Some (J_dict [(''act_1'',
                J_list [J_dict [(''estimated_time_to_regain_access'', J_int 0)],
                        J_dict [(''estimated_time_to_regain_access'', J_int 5)]])])
      else if s = ''{act_1: [{type: ads_management}], act_2: [{type: ads_insights}, {estimated_time_to_regain_access: 5}, {estimated_time_to_regain_access: 9}]}'' then
        Some (J_dict [(''act_1'', J_list [J_dict [(''type'', J_str ''ads_management'')]]),
                      (''act_2'',
                J_list [J_dict [(''type'', J_str ''ads_insights'')],
                        J_dict [(''estimated_time_to_regain_access'', J_int 5)],
                        J_dict [(''estimated_time_to_regain_access'', J_int 9)]])])
      else None)"

section \<open>Properties of the partitioner\<close>

declare chunk_dates.simps [simp del]

lemma tiles_snoc:
  "tiles s (rs @ [(a, b)]) e \<longleftrightarrow> tiles s rs a \<and> a \<le> b \<and> b \<le> a + 1 \<and> e = b + 1"
  by (induction s rs e rule: tiles.induct) auto

lemma chunk_dates_tiles:
  "tiles s acc f \<Longrightarrow> f \<le> u + 1 \<Longrightarrow> chunk_dates f u acc = (f', rs) \<Longrightarrow>
   tiles s rs f' \<and> (f' = u \<or> f' = u + 1)"
proof (induction f u acc rule: chunk_dates.induct)
  case (1 from_date until time_ranges)
  show ?case
  proof (cases "from_date + 1 > until")
    case True
    with "1.prems" show ?thesis
      by (auto simp add: chunk_dates.simps [of from_date])
  next
    case False
    have t: "tiles s (time_ranges @ [(from_date, from_date + 1)]) (from_date + 1 + 1)"
      using "1.prems"(1) by (simp add: tiles_snoc)
    have r: "chunk_dates (from_date + 1 + 1) until (time_ranges @ [(from_date, from_date + 1)]) = (f', rs)"
      using "1.prems"(3) False by (simp add: chunk_dates.simps [of from_date])
    from False have "from_date + 1 + 1 \<le> until + 1" by simp
    from "1.IH" [OF refl _ t this r] False show ?thesis by simp
  qed
qed

lemma time_ranges_tiles:
  assumes "since \<le> until"
  shows "tiles since (time_ranges since until) (until + 1)"
proof (cases "until - since > 1")
  case False
  with assms show ?thesis by (simp add: time_ranges_def)
next
  case True
  obtain f' rs where c: "chunk_dates since until [] = (f', rs)"
    by (cases "chunk_dates since until []")
  have "tiles since [] since" by simp
  from chunk_dates_tiles [OF this _ c] assms
  have t: "tiles since rs f'" and f: "f' = until \<or> f' = until + 1" by auto
  from f show ?thesis
  proof
    assume "f' = until"
    with t c True show ?thesis by (simp add: time_ranges_def tiles_snoc)
  next
    assume "f' = until + 1"
    with t c True show ?thesis by (simp add: time_ranges_def)
  qed
qed

lemma tiles_le: "tiles s rs e \<Longrightarrow> s \<le> e"
  by (induction s rs e rule: tiles.induct) auto

lemma tiles_hd: "tiles s rs e \<Longrightarrow> rs \<noteq> [] \<Longrightarrow> fst (hd rs) = s"
  by (cases rs) auto

lemma tiles_last: "tiles s rs e \<Longrightarrow> rs \<noteq> [] \<Longrightarrow> snd (last rs) + 1 = e"
  by (induction s rs e rule: tiles.induct) auto

lemma tiles_nth:
  "tiles s rs e \<Longrightarrow> i < length rs \<Longrightarrow>
   s \<le> fst (rs ! i) \<and> fst (rs ! i) \<le> snd (rs ! i) \<and> snd (rs ! i) \<le> fst (rs ! i) + 1 \<and> snd (rs ! i) < e"
proof (induction s rs e arbitrary: i rule: tiles.induct)
  case (1 s e)
  then show ?case by simp
next
  case (2 s a b rs e)
  show ?case
  proof (cases i)
    case 0
    with "2.prems" tiles_le [of "b + 1" rs e] show ?thesis by simp
  next
    case (Suc k)
    with "2.prems" "2.IH" [of k] show ?thesis by simp
  qed
qed

lemma tiles_next:
  "tiles s rs e \<Longrightarrow> Suc i < length rs \<Longrightarrow> fst (rs ! Suc i) = snd (rs ! i) + 1"
proof (induction s rs e arbitrary: i rule: tiles.induct)
  case (1 s e)
  then show ?case by simp
next
  case (2 s a b rs e)
  show ?case
  proof (cases i)
    case 0
    with "2.prems" tiles_hd [of "b + 1" rs e] show ?thesis
      by (cases rs) auto
  next
    case (Suc k)
    with "2.prems" "2.IH" [of k] show ?thesis by simp
  qed
qed

lemma tiles_increasing:
  "tiles s rs e \<Longrightarrow> i < j \<Longrightarrow> j < length rs \<Longrightarrow> snd (rs ! i) < fst (rs ! j)"
proof (induction s rs e arbitrary: i j rule: tiles.induct)
  case (1 s e)
  then show ?case by simp
next
  case (2 s a b rs e)
  obtain k where j: "j = Suc k" using "2.prems"(2) by (cases j) auto
  show ?case
  proof (cases i)
    case 0
    with "2.prems" j tiles_nth [of "b + 1" rs e k] show ?thesis by simp
  next
    case (Suc l)
    with "2.prems" j "2.IH" [of l k] show ?thesis by simp
  qed
qed

lemma tiles_covers:
  "tiles s rs e \<Longrightarrow> s \<le> d \<Longrightarrow> d < e \<Longrightarrow> \<exists>i<length rs. fst (rs ! i) \<le> d \<and> d \<le> snd (rs ! i)"
proof (induction s rs e rule: tiles.induct)
  case (1 s e)
  then show ?case by simp
next
  case (2 s a b rs e)
  show ?case
  proof (cases "d \<le> b")
    case True
    with "2.prems" have "fst (((a, b) # rs) ! 0) \<le> d \<and> d \<le> snd (((a, b) # rs) ! 0)" by simp
    then show ?thesis by blast
  next
    case False
    with "2.prems" "2.IH" obtain k where "k < length rs" "fst (rs ! k) \<le> d" "d \<le> snd (rs ! k)"
      by auto
    then have "Suc k < length ((a, b) # rs) \<and> fst (((a, b) # rs) ! Suc k) \<le> d \<and> d \<le> snd (((a, b) # rs) ! Suc k)"
      by simp
    then show ?thesis by blast
  qed
qed

lemma tiles_once:
  assumes "tiles s rs e" "s \<le> d" "d < e"
  shows "\<exists>!i. i < length rs \<and> fst (rs ! i) \<le> d \<and> d \<le> snd (rs ! i)"
proof -
  from tiles_covers [OF assms] obtain i where i: "i < length rs" "fst (rs ! i) \<le> d" "d \<le> snd (rs ! i)"
    by blast
  have "j = i" if j: "j < length rs \<and> fst (rs ! j) \<le> d \<and> d \<le> snd (rs ! j)" for j
  proof (rule ccontr)
    assume "j \<noteq> i"
    then consider "i < j" | "j < i" by linarith
    then show False
    proof cases
      case 1
      from tiles_increasing [OF assms(1) 1] j i show False by auto
    next
      case 2
      from tiles_increasing [OF assms(1) 2] j i show False by auto
    qed
  qed
  with i show ?thesis by blast
qed

text \<open>
  Claim C4. For \<open>since \<le> until\<close> the ranges are not empty, start at \<open>since\<close>, end at
  \<open>until\<close>, each range starts on the day after the end of the one before it, each range
  ends at most one day after its start, every day from \<open>since\<close> to \<open>until\<close> lies in
  exactly one range, a span of at most one day gives the single range \<open>(since, until)\<close>,
  and when the chunking loop stops with \<open>from_date \<le> until\<close> the last range is
  \<open>(from_date, until)\<close>.
\<close>

theorem time_ranges_partition:
  assumes "since \<le> until"
  shows "time_ranges since until \<noteq> []
    \<and> fst (hd (time_ranges since until)) = since
    \<and> snd (last (time_ranges since until)) = until
    \<and> (\<forall>i. Suc i < length (time_ranges since until) \<longrightarrow>
          fst (time_ranges since until ! Suc i) = snd (time_ranges since until ! i) + 1)
    \<and> (\<forall>i < length (time_ranges since until).
          fst (time_ranges since until ! i) \<le> snd (time_ranges since until ! i)
          \<and> snd (time_ranges since until ! i) - fst (time_ranges since until ! i) \<le> 1)
    \<and> (\<forall>d. since \<le> d \<and> d \<le> until \<longrightarrow>
          (\<exists>!i. i < length (time_ranges since until)
             \<and> fst (time_ranges since until ! i) \<le> d \<and> d \<le> snd (time_ranges since until ! i)))
    \<and> (until - since \<le> 1 \<longrightarrow> time_ranges since until = [(since, until)])
    \<and> (until - since > 1 \<and> fst (chunk_dates since until []) \<le> until \<longrightarrow>
          last (time_ranges since until) = (fst (chunk_dates since until []), until))"
proof -
  let ?rs = "time_ranges since until"
  have t: "tiles since ?rs (until + 1)" by (rule time_ranges_tiles [OF assms])
  have ne: "?rs \<noteq> []" using t assms by (cases ?rs) auto
  have c1: "fst (hd ?rs) = since" by (rule tiles_hd [OF t ne])
  have c2: "snd (last ?rs) = until" using tiles_last [OF t ne] by simp
  have c3: "\<forall>i. Suc i < length ?rs \<longrightarrow> fst (?rs ! Suc i) = snd (?rs ! i) + 1"
    using tiles_next [OF t] by blast
  have c4: "\<forall>i < length ?rs. fst (?rs ! i) \<le> snd (?rs ! i) \<and> snd (?rs ! i) - fst (?rs ! i) \<le> 1"
    using tiles_nth [OF t] by force
  have c5: "\<forall>d. since \<le> d \<and> d \<le> until \<longrightarrow>
      (\<exists>!i. i < length ?rs \<and> fst (?rs ! i) \<le> d \<and> d \<le> snd (?rs ! i))"
    using tiles_once [OF t] by simp
  have c6: "until - since \<le> 1 \<longrightarrow> ?rs = [(since, until)]"
    by (simp add: time_ranges_def)
  have c7: "until - since > 1 \<and> fst (chunk_dates since until []) \<le> until \<longrightarrow>
      last ?rs = (fst (chunk_dates since until []), until)"
    by (simp add: time_ranges_def split: prod.splits)
  from ne c1 c2 c3 c4 c5 c6 c7 show ?thesis by blast
qed

text \<open>
  The ranges of the spec's example, counted in days: from day 4 to day 8.
\<close>

theorem time_ranges_partition_witness:
  "(4::int) \<le> 8 \<and> time_ranges 4 8 = [(4, 5), (6, 7), (8, 8)]
   \<and> snd (last (time_ranges 4 8)) = 8
   \<and> (\<exists>!i. i < length (time_ranges 4 8) \<and> fst (time_ranges 4 8 ! i) \<le> 6 \<and> 6 \<le> snd (time_ranges 4 8 ! i))"
proof -
  have h: "(4::int) \<le> 8" by simp
  have e: "time_ranges 4 8 = [(4, 5), (6, 7), (8, 8)]"
    by (simp add: time_ranges_def chunk_dates.simps)
  from time_ranges_partition [OF h] h e show ?thesis by simp
qed

section \<open>Properties of the polling loop\<close>

lemma poll_job_events_nonempty: "ps \<noteq> [] \<Longrightarrow> snd (poll_job ps) \<noteq> []"
  by (cases ps rule: poll_job.cases) (auto split: prod.splits)

lemma poll_job_returns:
  "poll_job ps = (Some (Inr j), evs) \<Longrightarrow>
   \<exists>n < length ps. ps ! n = Inr j
     \<and> (\<forall>i < n. \<exists>j'. ps ! i = Inr j'
            \<and> async_status j' \<notin> {''Job Skipped'', ''Job Failed''}
            \<and> \<not> (async_status j' = ''Job Completed'' \<and> async_percent_completion j' = 100))
     \<and> count_list evs Api_get = Suc n
     \<and> (async_status j \<in> {''Job Skipped'', ''Job Failed''}
            \<and> last evs = Log_error (Job_failed (run_id j) (async_status j))
          \<or> async_status j = ''Job Completed'' \<and> async_percent_completion j = 100
            \<and> last evs = Log_info (Job_finished (run_id j) (time_ref j) (time_completed j)))"
proof (induction ps arbitrary: evs rule: poll_job.induct)
  case 1
  then show ?case by simp
next
  case (2 e rest)
  then show ?case by simp
next
  case (3 job rest)
  let ?P = "\<lambda>ps n evs. ps ! n = Inr j
     \<and> (\<forall>i < n. \<exists>j'. ps ! i = Inr j'
            \<and> async_status j' \<notin> {''Job Skipped'', ''Job Failed''}
            \<and> \<not> (async_status j' = ''Job Completed'' \<and> async_percent_completion j' = 100))
     \<and> count_list evs Api_get = Suc n
     \<and> (async_status j \<in> {''Job Skipped'', ''Job Failed''}
            \<and> last evs = Log_error (Job_failed (run_id j) (async_status j))
          \<or> async_status j = ''Job Completed'' \<and> async_percent_completion j = 100
            \<and> last evs = Log_info (Job_finished (run_id j) (time_ref j) (time_completed j)))"
  consider (failed) "async_status job \<in> set [''Job Skipped'', ''Job Failed'']"
    | (complete) "async_status job \<notin> set [''Job Skipped'', ''Job Failed'']"
        "async_status job = ''Job Completed'' \<and> async_percent_completion job = 100"
    | (pending) "async_status job \<notin> set [''Job Skipped'', ''Job Failed'']"
        "\<not> (async_status job = ''Job Completed'' \<and> async_percent_completion job = 100)"
    by blast
  then show ?case
  proof cases
    case failed
    with "3.prems" have "?P (Inr job # rest) 0 evs" by auto
    then show ?thesis by blast
  next
    case complete
    with "3.prems" have "?P (Inr job # rest) 0 evs" by auto
    then show ?thesis by blast
  next
    case pending
    obtain r evs' where p: "poll_job rest = (r, evs')" by (cases "poll_job rest")
    from "3.prems" pending p have r: "r = Some (Inr j)" by (auto split: if_splits)
    have ne: "evs' \<noteq> []" using p r poll_job_events_nonempty [of rest] by (cases rest) auto
    show ?thesis
    proof (cases "async_status job \<in>
                set [''Job Not Started'', ''Job Started'', ''Job Running'', ''Job Completed'']")
      case True
      from "3.IH"(1) [OF pending(1) pending(2) True] p r
      obtain n where n: "n < length rest" "?P rest n evs'" by blast
      from "3.prems" pending p True
      have evs: "evs = [Api_get, Log_info (Job_status (run_id job) (async_status job)), Sleep 2] @ evs'"
        by auto
      have "?P (Inr job # rest) (Suc n) evs"
        using n(2) pending ne unfolding evs
        by (auto simp: less_Suc_eq_0_disj)
      with n(1) show ?thesis by auto
    next
      case False
      from "3.IH"(2) [OF pending(1) pending(2) False] p r
      obtain n where n: "n < length rest" "?P rest n evs'" by blast
      from "3.prems" pending p False
      have evs: "evs = Api_get # evs'"
        by auto
      have "?P (Inr job # rest) (Suc n) evs"
        using n(2) pending ne unfolding evs
        by (auto simp: less_Suc_eq_0_disj)
      with n(1) show ?thesis by auto
    qed
  qed
qed

lemma run_attempt_after_failure:
  assumes "submit_error a = None" "polls a = Inr job # rest"
    and "async_status job \<in> {''Job Failed'', ''Job Skipped''}"
  shows "run_attempt account_id tap_stream_id rg a st prev =
     before [Get_insights account_id (date_isoformat (fst rg)) (date_isoformat (snd rg)),
             Api_get, Log_error (Job_failed (run_id job) (async_status job))]
       (let r = emit_records account_id tap_stream_id (results a) st prev
        in case outcome r of
             Returned \<Rightarrow>
               (case results_error a of None \<Rightarrow> r | Some e \<Rightarrow> r\<lparr>outcome := Raised e\<rparr>)
           | _ \<Rightarrow> r)"
  using assms by (auto simp: run_attempt_def run_adreport_def Let_def)

text \<open>
  Against claim C5 as stated. The first status report of a job is Job Failed. The polling
  loop logs the error and returns the handle, as it does for a completed job; it raises
  nothing. The caller then fetches the result, and when the platform answers with a row
  the attempt ends like a successful one: the row is written and no failure reaches the
  caller.
\<close>

theorem failed_job_counterexample:
  "poll_job [Inr failed_job] =
     (Some (Inr failed_job), [Api_get, Log_error (Job_failed ''8'' ''Job Failed'')])
   \<and> run_adreport ''act_1'' (738889, 738890)
       \<lparr>submit_error = None, polls = [Inr failed_job], results = [row_of_day ''2024-01-04''],
        results_error = None\<rparr> =
       (Some (Inr failed_job),
        [Get_insights ''act_1'' ''2024-01-04'' ''2024-01-05'', Api_get,
         Log_error (Job_failed ''8'' ''Job Failed'')])
   \<and> run_attempt ''act_1'' ''ads_insights'' (738889, 738890)
       \<lparr>submit_error = None, polls = [Inr failed_job], results = [row_of_day ''2024-01-04''],
        results_error = None\<rparr> example_state None =
       \<lparr>outcome = Returned, run_state = example_state, prev_bookmark = Some ''2024-01-04'',
        events = [Get_insights ''act_1'' ''2024-01-04'' ''2024-01-05'', Api_get,
                  Log_error (Job_failed ''8'' ''Job Failed''),
                  Write_record ''ads_insights'' (row_of_day ''2024-01-04'')]\<rparr>"
proof -
  have z: "zfill 2 n = [digit_char (n div 10 mod 10), digit_char (n mod 10)]"
    "zfill 4 n = [digit_char (n div 10 div 10 div 10 mod 10), digit_char (n div 10 div 10 mod 10),
                  digit_char (n div 10 mod 10), digit_char (n mod 10)]" for n
    by (simp_all add: eval_nat_numeral)
  have d: "date_isoformat 738889 = ''2024-01-04''" "date_isoformat 738890 = ''2024-01-05''"
    by (simp_all add: date_isoformat_def ord2ymd_def days_before_month_def is_leap_def
        digit_char_def Let_def z)
  show ?thesis
    by (simp add: failed_job_def run_adreport_def run_attempt_def before_def row_of_day_def
        bookmark_key_def Let_def d)
qed

text \<open>
  Claim C5, as amended. The polling loop polls again after \<open>Sleep 2\<close> while the status is
  Not Started, Started or Running, or Completed with a percentage other than 100; it
  returns at a status report that is Completed with percentage 100. At Failed or Skipped
  it returns at once as well: it logs an error with the job id and the status and returns
  the job handle, as on success, and raises nothing. The caller does not look at the
  status; after a failed job it fetches the result as after a completed one, writes the
  rows that come, and fails only with what the fetching or the rows raise. Whenever the
  loop returns a handle, that handle is the first status report that is Failed, Skipped or
  Completed with 100, every earlier poll was none of these, and exactly one \<open>Api_get\<close> was
  made per report up to it. Presented with Running, Completed (60), Completed (100) it
  polls three times, sleeps twice and returns at the third; with only the first two
  reports it has not returned.
\<close>

theorem poll_job_state_machine:
  "(async_status job \<in> {''Job Not Started'', ''Job Started'', ''Job Running''}
      \<or> async_status job = ''Job Completed'' \<and> async_percent_completion job \<noteq> 100 \<longrightarrow>
      poll_job (Inr job # rest) =
        (fst (poll_job rest),
         [Api_get, Log_info (Job_status (run_id job) (async_status job)), Sleep 2]
           @ snd (poll_job rest)))
   \<and> (async_status job = ''Job Completed'' \<and> async_percent_completion job = 100 \<longrightarrow>
      poll_job (Inr job # rest) =
        (Some (Inr job),
         [Api_get, Log_info (Job_finished (run_id job) (time_ref job) (time_completed job))]))
   \<and> (async_status job \<in> {''Job Failed'', ''Job Skipped''} \<longrightarrow>
      poll_job (Inr job # rest) =
        (Some (Inr job), [Api_get, Log_error (Job_failed (run_id job) (async_status job))]))
   \<and> (async_status job \<in> {''Job Failed'', ''Job Skipped''}
        \<and> submit_error a = None \<and> polls a = Inr job # rest \<longrightarrow>
      run_attempt account_id tap_stream_id rg a st prev =
        before [Get_insights account_id (date_isoformat (fst rg)) (date_isoformat (snd rg)),
                Api_get, Log_error (Job_failed (run_id job) (async_status job))]
          (let r = emit_records account_id tap_stream_id (results a) st prev
           in case outcome r of
                Returned \<Rightarrow>
                  (case results_error a of None \<Rightarrow> r | Some e \<Rightarrow> r\<lparr>outcome := Raised e\<rparr>)
              | _ \<Rightarrow> r))
   \<and> (poll_job ps = (Some (Inr j), evs) \<longrightarrow>
      (\<exists>n < length ps. ps ! n = Inr j
         \<and> (\<forall>i < n. \<exists>j'. ps ! i = Inr j'
               \<and> async_status j' \<notin> {''Job Skipped'', ''Job Failed''}
               \<and> \<not> (async_status j' = ''Job Completed'' \<and> async_percent_completion j' = 100))
         \<and> count_list evs Api_get = Suc n
         \<and> (async_status j \<in> {''Job Skipped'', ''Job Failed''}
               \<and> last evs = Log_error (Job_failed (run_id j) (async_status j))
             \<or> async_status j = ''Job Completed'' \<and> async_percent_completion j = 100
               \<and> last evs = Log_info (Job_finished (run_id j) (time_ref j) (time_completed j)))))
   \<and> (async_status j1 = ''Job Running''
        \<and> async_status j2 = ''Job Completed'' \<and> async_percent_completion j2 = 60
        \<and> async_status j3 = ''Job Completed'' \<and> async_percent_completion j3 = 100 \<longrightarrow>
      poll_job [Inr j1, Inr j2, Inr j3] =
        (Some (Inr j3),
         [Api_get, Log_info (Job_status (run_id j1) ''Job Running''), Sleep 2,
          Api_get, Log_info (Job_status (run_id j2) ''Job Completed''), Sleep 2,
          Api_get, Log_info (Job_finished (run_id j3) (time_ref j3) (time_completed j3))])
      \<and> fst (poll_job [Inr j1, Inr j2]) = None)"
proof -
  have a: "async_status job \<in> {''Job Not Started'', ''Job Started'', ''Job Running''}
      \<or> async_status job = ''Job Completed'' \<and> async_percent_completion job \<noteq> 100 \<longrightarrow>
      poll_job (Inr job # rest) =
        (fst (poll_job rest),
         [Api_get, Log_info (Job_status (run_id job) (async_status job)), Sleep 2]
           @ snd (poll_job rest))"
    by (auto split: prod.splits)
  have b: "async_status job = ''Job Completed'' \<and> async_percent_completion job = 100 \<longrightarrow>
      poll_job (Inr job # rest) =
        (Some (Inr job),
         [Api_get, Log_info (Job_finished (run_id job) (time_ref job) (time_completed job))])"
    by simp
  have c: "async_status job \<in> {''Job Failed'', ''Job Skipped''} \<longrightarrow>
      poll_job (Inr job # rest) =
        (Some (Inr job), [Api_get, Log_error (Job_failed (run_id job) (async_status job))])"
    by auto
  have c': "async_status job \<in> {''Job Failed'', ''Job Skipped''}
        \<and> submit_error a = None \<and> polls a = Inr job # rest \<longrightarrow>
      run_attempt account_id tap_stream_id rg a st prev =
        before [Get_insights account_id (date_isoformat (fst rg)) (date_isoformat (snd rg)),
                Api_get, Log_error (Job_failed (run_id job) (async_status job))]
          (let r = emit_records account_id tap_stream_id (results a) st prev
           in case outcome r of
                Returned \<Rightarrow>
                  (case results_error a of None \<Rightarrow> r | Some e \<Rightarrow> r\<lparr>outcome := Raised e\<rparr>)
              | _ \<Rightarrow> r)"
    using run_attempt_after_failure [of a job rest account_id tap_stream_id rg st prev]
    by blast
  have d: "poll_job ps = (Some (Inr j), evs) \<longrightarrow>
      (\<exists>n < length ps. ps ! n = Inr j
         \<and> (\<forall>i < n. \<exists>j'. ps ! i = Inr j'
               \<and> async_status j' \<notin> {''Job Skipped'', ''Job Failed''}
               \<and> \<not> (async_status j' = ''Job Completed'' \<and> async_percent_completion j' = 100))
         \<and> count_list evs Api_get = Suc n
         \<and> (async_status j \<in> {''Job Skipped'', ''Job Failed''}
               \<and> last evs = Log_error (Job_failed (run_id j) (async_status j))
             \<or> async_status j = ''Job Completed'' \<and> async_percent_completion j = 100
               \<and> last evs = Log_info (Job_finished (run_id j) (time_ref j) (time_completed j))))"
    using poll_job_returns [of ps j evs] by blast
  have e: "async_status j1 = ''Job Running''
        \<and> async_status j2 = ''Job Completed'' \<and> async_percent_completion j2 = 60
        \<and> async_status j3 = ''Job Completed'' \<and> async_percent_completion j3 = 100 \<longrightarrow>
      poll_job [Inr j1, Inr j2, Inr j3] =
        (Some (Inr j3),
         [Api_get, Log_info (Job_status (run_id j1) ''Job Running''), Sleep 2,
          Api_get, Log_info (Job_status (run_id j2) ''Job Completed''), Sleep 2,
          Api_get, Log_info (Job_finished (run_id j3) (time_ref j3) (time_completed j3))])
      \<and> fst (poll_job [Inr j1, Inr j2]) = None"
    by simp
  from a b c c' d e show ?thesis by blast
qed

theorem poll_job_state_machine_witness:
  "poll_job
     [Inr \<lparr>run_id = ''7'', async_status = ''Job Running'', async_percent_completion = 10,
           time_ref = 0, time_completed = 0\<rparr>,
      Inr \<lparr>run_id = ''7'', async_status = ''Job Completed'', async_percent_completion = 60,
           time_ref = 0, time_completed = 0\<rparr>,
      Inr \<lparr>run_id = ''7'', async_status = ''Job Completed'', async_percent_completion = 100,
           time_ref = 100, time_completed = 130\<rparr>] =
     (Some (Inr \<lparr>run_id = ''7'', async_status = ''Job Completed'',
                 async_percent_completion = 100, time_ref = 100, time_completed = 130\<rparr>),
      [Api_get, Log_info (Job_status ''7'' ''Job Running''), Sleep 2,
       Api_get, Log_info (Job_status ''7'' ''Job Completed''), Sleep 2,
       Api_get, Log_info (Job_finished ''7'' 100 130)])
   \<and> poll_job
     [Inr \<lparr>run_id = ''8'', async_status = ''Job Failed'', async_percent_completion = 0,
           time_ref = 0, time_completed = 0\<rparr>,
      Inr \<lparr>run_id = ''8'', async_status = ''Job Completed'', async_percent_completion = 100,
           time_ref = 0, time_completed = 0\<rparr>] =
     (Some (Inr \<lparr>run_id = ''8'', async_status = ''Job Failed'', async_percent_completion = 0,
                 time_ref = 0, time_completed = 0\<rparr>),
      [Api_get, Log_error (Job_failed ''8'' ''Job Failed'')])
   \<and> run_attempt ''act_1'' ''ads_insights'' (4, 5)
       \<lparr>submit_error = None,
        polls = [Inr \<lparr>run_id = ''8'', async_status = ''Job Failed'',
                      async_percent_completion = 0, time_ref = 0, time_completed = 0\<rparr>],
        results = [], results_error = Some (FacebookRequestError (Some 2601) (Some 1815107))\<rparr>
       example_state None =
       \<lparr>outcome = Raised (FacebookRequestError (Some 2601) (Some 1815107)),
        run_state = example_state, prev_bookmark = None,
        events = [Get_insights ''act_1'' (date_isoformat 4) (date_isoformat 5), Api_get,
                  Log_error (Job_failed ''8'' ''Job Failed'')]\<rparr>"
  using poll_job_state_machine
    [where job = "\<lparr>run_id = ''8'', async_status = ''Job Failed'', async_percent_completion = 0,
           time_ref = 0, time_completed = 0\<rparr>"
       and rest = "[Inr \<lparr>run_id = ''8'', async_status = ''Job Completed'',
           async_percent_completion = 100, time_ref = 0, time_completed = 0\<rparr>]"
       and ps = "[]"
       and ?j1.0 = "\<lparr>run_id = ''7'', async_status = ''Job Running'', async_percent_completion = 10,
           time_ref = 0, time_completed = 0\<rparr>"
       and ?j2.0 = "\<lparr>run_id = ''7'', async_status = ''Job Completed'', async_percent_completion = 60,
           time_ref = 0, time_completed = 0\<rparr>"
       and ?j3.0 = "\<lparr>run_id = ''7'', async_status = ''Job Completed'', async_percent_completion = 100,
           time_ref = 100, time_completed = 130\<rparr>"]
    poll_job_state_machine
    [where job = "\<lparr>run_id = ''8'', async_status = ''Job Failed'', async_percent_completion = 0,
           time_ref = 0, time_completed = 0\<rparr>"
       and rest = "[]" and ps = "[]" and account_id = "''act_1''"
       and tap_stream_id = "''ads_insights''" and rg = "(4, 5)" and st = example_state
       and prev = None
       and a = "\<lparr>submit_error = None,
        polls = [Inr \<lparr>run_id = ''8'', async_status = ''Job Failed'',
                      async_percent_completion = 0, time_ref = 0, time_completed = 0\<rparr>],
        results = [], results_error = Some (FacebookRequestError (Some 2601) (Some 1815107))\<rparr>"]
  by (simp add: before_def)

section \<open>Basic facts about runs and effects\<close>

lemma before_simps [simp]:
  "outcome (before evs r) = outcome r"
  "run_state (before evs r) = run_state r"
  "prev_bookmark (before evs r) = prev_bookmark r"
  "events (before evs r) = evs @ events r"
  by (simp_all add: before_def)

lemma written_states_simps [simp]:
  "written_states [] = []"
  "written_states (Write_state s # evs) = s # written_states evs"
  "written_states (Write_record t i # evs) = written_states evs"
  "written_states (Get_insights a b c # evs) = written_states evs"
  "written_states (Api_get # evs) = written_states evs"
  "written_states (Sleep n # evs) = written_states evs"
  "written_states (Log_error m # evs) = written_states evs"
  "written_states (Log_info m # evs) = written_states evs"
  "written_states (Log_warning m # evs) = written_states evs"
  "written_states (xs @ ys) = written_states xs @ written_states ys"
  by (simp_all add: written_states_def)

lemma written_records_simps [simp]:
  "written_records [] = []"
  "written_records (Write_state s # evs) = written_records evs"
  "written_records (Write_record t i # evs) = i # written_records evs"
  "written_records (Get_insights a b c # evs) = written_records evs"
  "written_records (Api_get # evs) = written_records evs"
  "written_records (Sleep n # evs) = written_records evs"
  "written_records (Log_error m # evs) = written_records evs"
  "written_records (Log_info m # evs) = written_records evs"
  "written_records (Log_warning m # evs) = written_records evs"
  "written_records (xs @ ys) = written_records xs @ written_records ys"
  by (simp_all add: written_records_def)

lemma singer_output_simps [simp]:
  "singer_output [] = []"
  "singer_output (Write_state s # evs) = Write_state s # singer_output evs"
  "singer_output (Write_record t i # evs) = Write_record t i # singer_output evs"
  "singer_output (Get_insights a b c # evs) = singer_output evs"
  "singer_output (Api_get # evs) = singer_output evs"
  "singer_output (Sleep n # evs) = singer_output evs"
  "singer_output (Log_error m # evs) = singer_output evs"
  "singer_output (Log_info m # evs) = singer_output evs"
  "singer_output (Log_warning m # evs) = singer_output evs"
  "singer_output (xs @ ys) = singer_output xs @ singer_output ys"
  by (simp_all add: singer_output_def)

lemma written_of_singer_output [simp]:
  "written_states (singer_output evs) = written_states evs"
  "written_records (singer_output evs) = written_records evs"
  by (induction evs) (auto simp: singer_output_def written_states_def written_records_def
      split: event.splits)

lemma stored_bookmark_write [simp]:
  "stored_bookmark tap_stream_id account_id
     (write_bookmark st tap_stream_id account_id [(bookmark_key, v)]) = Some v"
  by (simp add: stored_bookmark_def get_bookmark_def write_bookmark_def Let_def update_conv')

lemma stored_bookmark_write_other:
  "(tap_stream_id', account_id') \<noteq> (tap_stream_id, account_id) \<Longrightarrow>
   stored_bookmark tap_stream_id' account_id' (write_bookmark st tap_stream_id account_id r) =
     stored_bookmark tap_stream_id' account_id' st"
  by (auto simp: stored_bookmark_def get_bookmark_def write_bookmark_def Let_def update_conv'
      split: option.splits)

lemma poll_job_singer_output [simp]: "singer_output (snd (poll_job ps)) = []"
  by (induction ps rule: poll_job.induct) (auto split: prod.splits)

lemma run_adreport_singer_output [simp]: "singer_output (snd (run_adreport account_id rg a)) = []"
  by (auto simp: run_adreport_def split: option.splits prod.splits)
    (metis poll_job_singer_output snd_conv)

lemma run_adreport_answers:
  "answers_with a rows \<Longrightarrow> \<exists>h. fst (run_adreport account_id rg a) = Some (Inr h)"
  by (auto simp: answers_with_def run_adreport_def split: option.splits sum.splits prod.splits)

lemma run_attempt_answers:
  assumes "answers_with a rows"
  shows "run_attempt account_id tap_stream_id rg a st prev =
           before (snd (run_adreport account_id rg a))
             (emit_records account_id tap_stream_id rows st prev)"
proof -
  from run_adreport_answers [OF assms, of account_id rg]
  obtain h where "fst (run_adreport account_id rg a) = Some (Inr h)" by blast
  then obtain evs where r: "run_adreport account_id rg a = (Some (Inr h), evs)"
    by (cases "run_adreport account_id rg a") auto
  from assms have "results a = rows" "results_error a = None"
    by (auto simp: answers_with_def split: option.splits sum.splits)
  with r show ?thesis
    by (cases "outcome (emit_records account_id tap_stream_id rows st prev)")
      (simp_all add: run_attempt_def)
qed

declare retry_range.simps [simp del]

lemma retry_range_final:
  assumes "\<not> (temporary_async_error
               (outcome (run_attempt account_id tap_stream_id rg (remote rg attempt) st prev))
             \<and> attempt < 5)"
  shows "retry_range remote account_id tap_stream_id rg attempt st prev =
           run_attempt account_id tap_stream_id rg (remote rg attempt) st prev"
  using assms by (subst retry_range.simps) (auto simp: Let_def)

lemma retry_range_again:
  assumes "temporary_async_error
             (outcome (run_attempt account_id tap_stream_id rg (remote rg attempt) st prev))"
    and "attempt < 5"
  shows "retry_range remote account_id tap_stream_id rg attempt st prev =
           before (events (run_attempt account_id tap_stream_id rg (remote rg attempt) st prev)
                     @ [Log_warning Retrying_in_20s, Sleep 20])
             (retry_range remote account_id tap_stream_id rg (attempt + 1)
                (run_state (run_attempt account_id tap_stream_id rg (remote rg attempt) st prev))
                (prev_bookmark (run_attempt account_id tap_stream_id rg (remote rg attempt) st prev)))"
  using assms by (subst retry_range.simps) (simp add: Let_def)

section \<open>The output stream of a run without errors\<close>

lemma advance_bookmark_singer_output [simp]:
  "singer_output (snd (advance_bookmark account_id st b tap_stream_id)) =
     snd (advance_bookmark account_id st b tap_stream_id)"
  by (auto simp: advance_bookmark_def Let_def split: sum.splits)

lemma emit_records_singer_output [simp]:
  "singer_output (events (emit_records account_id tap_stream_id rows st prev)) =
     events (emit_records account_id tap_stream_id rows st prev)"
proof (induction rows arbitrary: st prev)
  case Nil
  show ?case by simp
next
  case (Cons insight rest)
  show ?case
  proof (cases "map_of insight bookmark_key")
    case None
    then show ?thesis by simp
  next
    case (Some new_bookmark)
    define prev1 where "prev1 = (case prev of None \<Rightarrow> new_bookmark
                                  | Some p \<Rightarrow> if p = [] then new_bookmark else p)"
    obtain res evs where a: "advance_bookmark account_id st (B_str prev1) tap_stream_id = (res, evs)"
      by (cases "advance_bookmark account_id st (B_str prev1) tap_stream_id")
    have evs: "singer_output evs = evs"
      using advance_bookmark_singer_output [of account_id st "B_str prev1" tap_stream_id] a by simp
    show ?thesis
      using Some a evs Cons.IH
      by (cases res) (simp_all add: prev1_def [symmetric] Let_def)
  qed
qed

lemma emit_records_append:
  assumes "outcome (emit_records account_id tap_stream_id xs st prev) = Returned"
  shows "emit_records account_id tap_stream_id (xs @ ys) st prev =
           before (events (emit_records account_id tap_stream_id xs st prev))
             (emit_records account_id tap_stream_id ys
                (run_state (emit_records account_id tap_stream_id xs st prev))
                (prev_bookmark (emit_records account_id tap_stream_id xs st prev)))"
  using assms
proof (induction xs arbitrary: st prev)
  case Nil
  show ?case by (simp add: before_def)
next
  case (Cons insight rest)
  show ?case
  proof (cases "map_of insight bookmark_key")
    case None
    with Cons.prems show ?thesis by simp
  next
    case (Some new_bookmark)
    define prev1 where "prev1 = (case prev of None \<Rightarrow> new_bookmark
                                  | Some p \<Rightarrow> if p = [] then new_bookmark else p)"
    obtain res evs where a: "advance_bookmark account_id st (B_str prev1) tap_stream_id = (res, evs)"
      by (cases "advance_bookmark account_id st (B_str prev1) tap_stream_id")
    show ?thesis
    proof (cases "prev1 < new_bookmark")
      case False
      with Some Cons.prems Cons.IH [of st "Some prev1"] show ?thesis
        by (simp add: prev1_def [symmetric] Let_def before_def)
    next
      case True
      show ?thesis
      proof (cases res)
        case (Inl e)
        with True Some a Cons.prems show ?thesis
          by (simp add: prev1_def [symmetric] Let_def)
      next
        case (Inr st')
        with True Some a Cons.prems Cons.IH [of st' "Some new_bookmark"] show ?thesis
          by (simp add: prev1_def [symmetric] Let_def before_def)
      qed
    qed
  qed
qed

lemma process_ranges_answers:
  assumes "list_all2 (\<lambda>rg rows. answers_with (remote rg 0) rows) rgs rowss"
    and "outcome (emit_records account_id tap_stream_id (concat rowss) st prev) = Returned"
  shows "outcome (process_ranges remote account_id tap_stream_id rgs st prev) = Returned
    \<and> run_state (process_ranges remote account_id tap_stream_id rgs st prev) =
        run_state (emit_records account_id tap_stream_id (concat rowss) st prev)
    \<and> prev_bookmark (process_ranges remote account_id tap_stream_id rgs st prev) =
        prev_bookmark (emit_records account_id tap_stream_id (concat rowss) st prev)
    \<and> singer_output (events (process_ranges remote account_id tap_stream_id rgs st prev)) =
        events (emit_records account_id tap_stream_id (concat rowss) st prev)"
  using assms
proof (induction rgs rowss arbitrary: st prev rule: list_all2_induct)
  case Nil
  show ?case by simp
next
  case (Cons rg rgs rows rowss)
  let ?e = "emit_records account_id tap_stream_id rows st prev"
  have ret: "outcome ?e = Returned"
  proof (rule ccontr)
    assume n: "outcome ?e \<noteq> Returned"
    have "emit_records account_id tap_stream_id (rows @ concat rowss) st prev = ?e"
      using n
    proof (induction rows arbitrary: st prev)
      case Nil
      then show ?case by simp
    next
      case (Cons insight rest)
      then show ?case
        by (auto simp: Let_def before_def split: option.splits sum.splits prod.splits)
    qed
    with Cons.prems n show False by simp
  qed
  have app: "emit_records account_id tap_stream_id (concat (rows # rowss)) st prev =
      before (events ?e)
        (emit_records account_id tap_stream_id (concat rowss) (run_state ?e) (prev_bookmark ?e))"
    using emit_records_append [OF ret] by simp
  have att: "run_attempt account_id tap_stream_id rg (remote rg 0) st prev =
      before (snd (run_adreport account_id rg (remote rg 0))) ?e"
    by (rule run_attempt_answers [OF Cons.hyps(1)])
  have rr: "retry_range remote account_id tap_stream_id rg 0 st prev =
      before (snd (run_adreport account_id rg (remote rg 0))) ?e"
    using retry_range_final [of account_id tap_stream_id rg remote 0 st prev] att ret by simp
  have rest: "outcome (emit_records account_id tap_stream_id (concat rowss)
                 (run_state ?e) (prev_bookmark ?e)) = Returned"
    using Cons.prems app by simp
  from Cons.IH [OF rest] rr ret app show ?case
    by (simp add: Let_def)
qed

lemma finish_account_singer_output [simp]:
  "singer_output (events (finish_account account_id tap_stream_id until st prev)) =
     events (finish_account account_id tap_stream_id until st prev)"
proof -
  define final where "final = (if truthy (as_bookmark prev) then as_bookmark prev else B_date until)"
  obtain res evs where a: "advance_bookmark account_id st final tap_stream_id = (res, evs)"
    by (cases "advance_bookmark account_id st final tap_stream_id")
  have "singer_output evs = evs"
    using advance_bookmark_singer_output [of account_id st final tap_stream_id] a by simp
  with a show ?thesis
    by (cases res) (simp_all add: finish_account_def final_def [symmetric] Let_def)
qed

lemma process_account_answers:
  assumes "resolve_start cfg clk account_id st tap_stream_id = Inr start"
    and "list_all2 (\<lambda>rg rows. answers_with (remote rg 0) rows)
           (time_ranges (parse_date start) (today clk - 1)) rowss"
    and "outcome (emit_records account_id tap_stream_id (concat rowss) st None) = Returned"
  shows "outcome (process_account cfg clk remote account_id tap_stream_id st) =
      outcome (finish_account account_id tap_stream_id (today clk - 1)
        (run_state (emit_records account_id tap_stream_id (concat rowss) st None))
        (prev_bookmark (emit_records account_id tap_stream_id (concat rowss) st None)))
    \<and> run_state (process_account cfg clk remote account_id tap_stream_id st) =
      run_state (finish_account account_id tap_stream_id (today clk - 1)
        (run_state (emit_records account_id tap_stream_id (concat rowss) st None))
        (prev_bookmark (emit_records account_id tap_stream_id (concat rowss) st None)))
    \<and> singer_output (events (process_account cfg clk remote account_id tap_stream_id st)) =
      events (emit_records account_id tap_stream_id (concat rowss) st None)
      @ events (finish_account account_id tap_stream_id (today clk - 1)
        (run_state (emit_records account_id tap_stream_id (concat rowss) st None))
        (prev_bookmark (emit_records account_id tap_stream_id (concat rowss) st None)))"
  using process_ranges_answers [where remote = remote, OF assms(2) assms(3)] assms(1)
  by (simp add: process_account_def Let_def)

lemma emit_records_lagged:
  assumes "map_of r1 bookmark_key = Some d1" "map_of r2 bookmark_key = Some d1"
    and "map_of r3 bookmark_key = Some d2" "map_of r4 bookmark_key = Some d2"
    and "map_of r5 bookmark_key = Some d3"
    and "d1 \<noteq> []" "d1 < d2" "d2 < d3"
    and "isoparse d1 = Some t1" "isoparse d2 = Some t2"
  shows "emit_records account_id tap_stream_id [r1, r2, r3, r4, r5] st None =
    \<lparr>outcome = Returned,
     run_state = write_bookmark
                   (write_bookmark st tap_stream_id account_id [(bookmark_key, isoformat t1)])
                   tap_stream_id account_id [(bookmark_key, isoformat t2)],
     prev_bookmark = Some d3,
     events =
       [Write_record tap_stream_id r1, Write_record tap_stream_id r2,
        Write_record tap_stream_id r3,
        Write_state (write_bookmark st tap_stream_id account_id [(bookmark_key, isoformat t1)]),
        Write_record tap_stream_id r4, Write_record tap_stream_id r5,
        Write_state (write_bookmark
                   (write_bookmark st tap_stream_id account_id [(bookmark_key, isoformat t1)])
                   tap_stream_id account_id [(bookmark_key, isoformat t2)])]\<rparr>"
proof -
  from assms have "d2 \<noteq> []" by auto
  with assms show ?thesis
    by (simp add: advance_bookmark_def before_def Let_def)
qed

text \<open>
  Claim C1. Let every range of the account be answered without error at its first
  attempt. If the rows of all ranges, in order, are five rows with the partition keys
  \<open>d1, d1, d2, d2, d3\<close>, where \<open>d1 < d2 < d3\<close> in the order of the strings, then the output
  stream is: the first three records, the state with the bookmark of \<open>d1\<close> (written on
  seeing the first \<open>d2\<close>), the last two records, the state with the bookmark of \<open>d2\<close>
  (written on seeing \<open>d3\<close>), and the state of the final advance with the bookmark of \<open>d3\<close>.
  If no range has a row, the output is the one state of the final advance, with the
  bookmark of \<open>until\<close>, which is the day before \<open>today\<close>.
\<close>

theorem lagged_bookmark_advance:
  "(resolve_start cfg clk account_id st tap_stream_id = Inr start
      \<and> list_all2 (\<lambda>rg rows. answers_with (remote rg 0) rows)
           (time_ranges (parse_date start) (today clk - 1)) rowss
      \<and> concat rowss = [r1, r2, r3, r4, r5]
      \<and> map_of r1 bookmark_key = Some d1 \<and> map_of r2 bookmark_key = Some d1
      \<and> map_of r3 bookmark_key = Some d2 \<and> map_of r4 bookmark_key = Some d2
      \<and> map_of r5 bookmark_key = Some d3
      \<and> d1 \<noteq> [] \<and> d1 < d2 \<and> d2 < d3
      \<and> isoparse d1 = Some t1 \<and> isoparse d2 = Some t2 \<and> isoparse d3 = Some t3
      \<and> s1 = write_bookmark st tap_stream_id account_id [(bookmark_key, isoformat t1)]
      \<and> s2 = write_bookmark s1 tap_stream_id account_id [(bookmark_key, isoformat t2)]
      \<and> s3 = write_bookmark s2 tap_stream_id account_id [(bookmark_key, isoformat t3)] \<longrightarrow>
    outcome (process_account cfg clk remote account_id tap_stream_id st) = Returned
    \<and> run_state (process_account cfg clk remote account_id tap_stream_id st) = s3
    \<and> singer_output (events (process_account cfg clk remote account_id tap_stream_id st)) =
        [Write_record tap_stream_id r1, Write_record tap_stream_id r2,
         Write_record tap_stream_id r3, Write_state s1,
         Write_record tap_stream_id r4, Write_record tap_stream_id r5, Write_state s2,
         Write_state s3]
    \<and> stored_bookmark tap_stream_id account_id s1 = Some (isoformat t1)
    \<and> stored_bookmark tap_stream_id account_id s2 = Some (isoformat t2)
    \<and> stored_bookmark tap_stream_id account_id s3 = Some (isoformat t3))
   \<and> (resolve_start cfg clk account_id st tap_stream_id = Inr start
      \<and> list_all2 (\<lambda>rg rows. answers_with (remote rg 0) rows)
           (time_ranges (parse_date start) (today clk - 1)) rowss
      \<and> concat rowss = []
      \<and> isoparse (date_isoformat (today clk - 1)) = Some tu
      \<and> su = write_bookmark st tap_stream_id account_id [(bookmark_key, isoformat tu)] \<longrightarrow>
    outcome (process_account cfg clk remote account_id tap_stream_id st) = Returned
    \<and> run_state (process_account cfg clk remote account_id tap_stream_id st) = su
    \<and> singer_output (events (process_account cfg clk remote account_id tap_stream_id st)) =
        [Write_state su]
    \<and> stored_bookmark tap_stream_id account_id su = Some (isoformat tu))"
proof (intro conjI impI)
  assume h: "resolve_start cfg clk account_id st tap_stream_id = Inr start
      \<and> list_all2 (\<lambda>rg rows. answers_with (remote rg 0) rows)
           (time_ranges (parse_date start) (today clk - 1)) rowss
      \<and> concat rowss = [r1, r2, r3, r4, r5]
      \<and> map_of r1 bookmark_key = Some d1 \<and> map_of r2 bookmark_key = Some d1
      \<and> map_of r3 bookmark_key = Some d2 \<and> map_of r4 bookmark_key = Some d2
      \<and> map_of r5 bookmark_key = Some d3
      \<and> d1 \<noteq> [] \<and> d1 < d2 \<and> d2 < d3
      \<and> isoparse d1 = Some t1 \<and> isoparse d2 = Some t2 \<and> isoparse d3 = Some t3
      \<and> s1 = write_bookmark st tap_stream_id account_id [(bookmark_key, isoformat t1)]
      \<and> s2 = write_bookmark s1 tap_stream_id account_id [(bookmark_key, isoformat t2)]
      \<and> s3 = write_bookmark s2 tap_stream_id account_id [(bookmark_key, isoformat t3)]"
  then have e: "emit_records account_id tap_stream_id (concat rowss) st None =
      \<lparr>outcome = Returned, run_state = s2, prev_bookmark = Some d3,
       events = [Write_record tap_stream_id r1, Write_record tap_stream_id r2,
         Write_record tap_stream_id r3, Write_state s1,
         Write_record tap_stream_id r4, Write_record tap_stream_id r5, Write_state s2]\<rparr>"
    using emit_records_lagged [of r1 d1 r2 r3 d2 r4 r5 d3 t1 t2 account_id tap_stream_id st]
    by simp
  from h have d3: "d3 \<noteq> []" by auto
  from h have i3: "isoparse d3 = Some t3"
    and s3: "s3 = write_bookmark s2 tap_stream_id account_id [(bookmark_key, isoformat t3)]"
    by simp_all
  have f: "finish_account account_id tap_stream_id (today clk - 1) s2 (Some d3) =
      \<lparr>outcome = Returned, run_state = s3, prev_bookmark = Some d3, events = [Write_state s3]\<rparr>"
    using d3 i3 by (simp add: finish_account_def as_bookmark_def advance_bookmark_def Let_def s3)
  from h have r: "resolve_start cfg clk account_id st tap_stream_id = Inr start"
    and l: "list_all2 (\<lambda>rg rows. answers_with (remote rg 0) rows)
           (time_ranges (parse_date start) (today clk - 1)) rowss" by simp_all
  have o: "outcome (emit_records account_id tap_stream_id (concat rowss) st None) = Returned"
    using e by simp
  note p = process_account_answers [where remote = remote, OF r l o, unfolded e, simplified, unfolded f, simplified]
  show "outcome (process_account cfg clk remote account_id tap_stream_id st) = Returned"
    using p by simp
  show "run_state (process_account cfg clk remote account_id tap_stream_id st) = s3"
    using p by simp
  show "singer_output (events (process_account cfg clk remote account_id tap_stream_id st)) =
        [Write_record tap_stream_id r1, Write_record tap_stream_id r2,
         Write_record tap_stream_id r3, Write_state s1,
         Write_record tap_stream_id r4, Write_record tap_stream_id r5, Write_state s2,
         Write_state s3]"
    using p by simp
  show "stored_bookmark tap_stream_id account_id s1 = Some (isoformat t1)"
    using h by (simp add: stored_bookmark_write)
  show "stored_bookmark tap_stream_id account_id s2 = Some (isoformat t2)"
    using h by (simp add: stored_bookmark_write)
  show "stored_bookmark tap_stream_id account_id s3 = Some (isoformat t3)"
    using h by (simp add: stored_bookmark_write)
next
  assume h: "resolve_start cfg clk account_id st tap_stream_id = Inr start
      \<and> list_all2 (\<lambda>rg rows. answers_with (remote rg 0) rows)
           (time_ranges (parse_date start) (today clk - 1)) rowss
      \<and> concat rowss = []
      \<and> isoparse (date_isoformat (today clk - 1)) = Some tu
      \<and> su = write_bookmark st tap_stream_id account_id [(bookmark_key, isoformat tu)]"
  then have c: "concat rowss = []" by blast
  have e: "emit_records account_id tap_stream_id (concat rowss) st None =
      \<lparr>outcome = Returned, run_state = st, prev_bookmark = None, events = []\<rparr>"
    unfolding c by simp
  from h have iu: "isoparse (date_isoformat (today clk - 1)) = Some tu"
    and su: "su = write_bookmark st tap_stream_id account_id [(bookmark_key, isoformat tu)]"
    by simp_all
  have f: "finish_account account_id tap_stream_id (today clk - 1) st None =
      \<lparr>outcome = Returned, run_state = su, prev_bookmark = None, events = [Write_state su]\<rparr>"
    using iu by (simp add: finish_account_def as_bookmark_def advance_bookmark_def Let_def su)
  from h have r: "resolve_start cfg clk account_id st tap_stream_id = Inr start"
    and l: "list_all2 (\<lambda>rg rows. answers_with (remote rg 0) rows)
           (time_ranges (parse_date start) (today clk - 1)) rowss" by simp_all
  have o: "outcome (emit_records account_id tap_stream_id (concat rowss) st None) = Returned"
    using e by simp
  note p = process_account_answers [where remote = remote, OF r l o, unfolded e, simplified, unfolded f, simplified]
  show "outcome (process_account cfg clk remote account_id tap_stream_id st) = Returned"
    using p by simp
  show "run_state (process_account cfg clk remote account_id tap_stream_id st) = su"
    using p by simp
  show "singer_output (events (process_account cfg clk remote account_id tap_stream_id st)) =
        [Write_state su]"
    using p by simp
  show "stored_bookmark tap_stream_id account_id su = Some (isoformat tu)"
    using h by (simp add: stored_bookmark_write)
qed

section \<open>Evaluation of the example\<close>

lemmas calendar_defs =
  isoparse_def isoparse_error_def dateutil_isoparse_def parse_isodate_def
  parse_isodate_common_def parse_isodate_uncommon_def calculate_weekdate_def parse_isotime_def
  parse_tzstr_def match_fraction_def datetime_of_fields_def py_int_def slice_def is_ascii_def
  is_space_def max_ordinal_def isoweekday_def date_of_def timedelta_days_def
  ymd2ord_def ord2ymd_def days_before_month_def
  days_before_year_def days_in_month_def is_leap_def digit_val_def digit_char_def
  date_isoformat_def isoformat_def format_offset_def

lemma zfill_width:
  "zfill 2 n = [digit_char (n div 10 mod 10), digit_char (n mod 10)]"
  "zfill 4 n = [digit_char (n div 10 div 10 div 10 mod 10), digit_char (n div 10 div 10 mod 10),
                digit_char (n div 10 mod 10), digit_char (n mod 10)]"
  by (simp_all add: eval_nat_numeral)

lemma example_isoparse:
  "isoparse ''2024-01-04'' = Some \<lparr>naive = 63840009600000000, utcoffset = None\<rparr>"
  "isoparse ''2024-01-05'' = Some \<lparr>naive = 63840096000000000, utcoffset = None\<rparr>"
  "isoparse ''2024-01-06'' = Some \<lparr>naive = 63840182400000000, utcoffset = None\<rparr>"
  "isoparse ''2024-01-08'' = Some \<lparr>naive = 63840355200000000, utcoffset = None\<rparr>"
  "isoparse ''2024-01-05T00:00:00'' = Some \<lparr>naive = 63840096000000000, utcoffset = None\<rparr>"
  by (simp_all add: calendar_defs)

lemma example_isoformat:
  "isoformat \<lparr>naive = 63840009600000000, utcoffset = None\<rparr> = ''2024-01-04T00:00:00''"
  "isoformat \<lparr>naive = 63840096000000000, utcoffset = None\<rparr> = ''2024-01-05T00:00:00''"
  "isoformat \<lparr>naive = 63840182400000000, utcoffset = None\<rparr> = ''2024-01-06T00:00:00''"
  "isoformat \<lparr>naive = 63840355200000000, utcoffset = None\<rparr> = ''2024-01-08T00:00:00''"
  "date_isoformat 738893 = ''2024-01-08''"
  by (simp_all add: calendar_defs Let_def zfill_width)

lemma example_resolve_start:
  "resolve_start \<lparr>start_date = None\<rparr> example_clock ''act_1'' example_state ''ads_insights'' =
     Inr \<lparr>naive = 63840009600000000, utcoffset = None\<rparr>"
  by (simp add: resolve_start_def get_start_def example_state_def example_clock_def
      state_empty_def get_bookmark_def bookmark_key_def adjust_start_def timedelta_days_def
      example_isoparse)

lemma example_time_ranges:
  "time_ranges (parse_date \<lparr>naive = 63840009600000000, utcoffset = None\<rparr>) (today example_clock - 1) =
     [(738889, 738890), (738891, 738892), (738893, 738893)]"
  by (simp add: parse_date_def date_of_def example_clock_def time_ranges_def chunk_dates.simps)

lemma example_answers:
  "answers_with (remote_with rows rg n) (rows rg)"
  by (simp add: answers_with_def remote_with_def completed_job_def)

theorem lagged_bookmark_advance_witness:
  "resolve_start \<lparr>start_date = None\<rparr> example_clock ''act_1'' example_state ''ads_insights'' =
     Inr \<lparr>naive = 63840009600000000, utcoffset = None\<rparr>
   \<and> time_ranges (parse_date \<lparr>naive = 63840009600000000, utcoffset = None\<rparr>) (today example_clock - 1) =
       [(738889, 738890), (738891, 738892), (738893, 738893)]
   \<and> ''2024-01-04'' < ''2024-01-05'' \<and> ''2024-01-05'' < ''2024-01-06''
   \<and> outcome (process_account \<lparr>start_date = None\<rparr> example_clock (remote_with five_rows)
        ''act_1'' ''ads_insights'' example_state) = Returned
   \<and> map (stored_bookmark ''ads_insights'' ''act_1'')
       (written_states (events (process_account \<lparr>start_date = None\<rparr> example_clock
          (remote_with five_rows) ''act_1'' ''ads_insights'' example_state))) =
       [Some ''2024-01-04T00:00:00'', Some ''2024-01-05T00:00:00'', Some ''2024-01-06T00:00:00'']
   \<and> written_records (events (process_account \<lparr>start_date = None\<rparr> example_clock
          (remote_with five_rows) ''act_1'' ''ads_insights'' example_state)) =
       [row_of_day ''2024-01-04'', row_of_day ''2024-01-04'', row_of_day ''2024-01-05'',
        row_of_day ''2024-01-05'', row_of_day ''2024-01-06'']"
proof -
  let ?s1 = "write_bookmark example_state ''ads_insights'' ''act_1''
               [(bookmark_key, isoformat \<lparr>naive = 63840009600000000, utcoffset = None\<rparr>)]"
  let ?s2 = "write_bookmark ?s1 ''ads_insights'' ''act_1''
               [(bookmark_key, isoformat \<lparr>naive = 63840096000000000, utcoffset = None\<rparr>)]"
  let ?s3 = "write_bookmark ?s2 ''ads_insights'' ''act_1''
               [(bookmark_key, isoformat \<lparr>naive = 63840182400000000, utcoffset = None\<rparr>)]"
  have l: "list_all2 (\<lambda>rg rows. answers_with (remote_with five_rows rg 0) rows)
             (time_ranges (parse_date \<lparr>naive = 63840009600000000, utcoffset = None\<rparr>) (today example_clock - 1))
             [five_rows (738889, 738890), five_rows (738891, 738892), five_rows (738893, 738893)]"
    unfolding example_time_ranges by (simp add: example_answers)
  have c: "concat [five_rows (738889, 738890), five_rows (738891, 738892),
                   five_rows (738893, 738893)] =
      [row_of_day ''2024-01-04'', row_of_day ''2024-01-04'', row_of_day ''2024-01-05'',
       row_of_day ''2024-01-05'', row_of_day ''2024-01-06'']"
    by (simp add: five_rows_def)
  have k: "map_of (row_of_day d) bookmark_key = Some d" for d
    by (simp add: row_of_day_def bookmark_key_def)
  have o: "''2024-01-04'' \<noteq> [] \<and> ''2024-01-04'' < ''2024-01-05'' \<and> ''2024-01-05'' < ''2024-01-06''"
    by simp
  from lagged_bookmark_advance
    [of "\<lparr>start_date = None\<rparr>" example_clock "''act_1''" example_state "''ads_insights''"
        "\<lparr>naive = 63840009600000000, utcoffset = None\<rparr>" "remote_with five_rows"
        "[five_rows (738889, 738890), five_rows (738891, 738892), five_rows (738893, 738893)]"
        "row_of_day ''2024-01-04''" "row_of_day ''2024-01-04''" "row_of_day ''2024-01-05''"
        "row_of_day ''2024-01-05''" "row_of_day ''2024-01-06''"
        "''2024-01-04''" "''2024-01-05''" "''2024-01-06''"
        "\<lparr>naive = 63840009600000000, utcoffset = None\<rparr>" "\<lparr>naive = 63840096000000000, utcoffset = None\<rparr>" "\<lparr>naive = 63840182400000000, utcoffset = None\<rparr>" ?s1 ?s2 ?s3]
    example_resolve_start l c k o example_isoparse
  have r: "outcome (process_account \<lparr>start_date = None\<rparr> example_clock (remote_with five_rows)
        ''act_1'' ''ads_insights'' example_state) = Returned
    \<and> singer_output (events (process_account \<lparr>start_date = None\<rparr> example_clock
        (remote_with five_rows) ''act_1'' ''ads_insights'' example_state)) =
        [Write_record ''ads_insights'' (row_of_day ''2024-01-04''),
         Write_record ''ads_insights'' (row_of_day ''2024-01-04''),
         Write_record ''ads_insights'' (row_of_day ''2024-01-05''), Write_state ?s1,
         Write_record ''ads_insights'' (row_of_day ''2024-01-05''),
         Write_record ''ads_insights'' (row_of_day ''2024-01-06''), Write_state ?s2,
         Write_state ?s3]"
    by simp
  have w: "written_states (events (process_account \<lparr>start_date = None\<rparr> example_clock
        (remote_with five_rows) ''act_1'' ''ads_insights'' example_state)) = [?s1, ?s2, ?s3]"
    using arg_cong [OF conjunct2 [OF r], of written_states] by simp
  have v: "written_records (events (process_account \<lparr>start_date = None\<rparr> example_clock
        (remote_with five_rows) ''act_1'' ''ads_insights'' example_state)) =
       [row_of_day ''2024-01-04'', row_of_day ''2024-01-04'', row_of_day ''2024-01-05'',
        row_of_day ''2024-01-05'', row_of_day ''2024-01-06'']"
    using arg_cong [OF conjunct2 [OF r], of written_records] by simp
  show ?thesis
    using r example_resolve_start example_time_ranges o
    by (simp add: w v example_isoformat)
qed

section \<open>Properties of the start date\<close>







section \<open>Properties of the retry loop\<close>

lemma submissions_simps [simp]:
  "submissions [] = 0"
  "submissions (Get_insights a b c # evs) = Suc (submissions evs)"
  "submissions (Write_state s # evs) = submissions evs"
  "submissions (Write_record t i # evs) = submissions evs"
  "submissions (Api_get # evs) = submissions evs"
  "submissions (Sleep n # evs) = submissions evs"
  "submissions (Log_error m # evs) = submissions evs"
  "submissions (Log_info m # evs) = submissions evs"
  "submissions (Log_warning m # evs) = submissions evs"
  "submissions (xs @ ys) = submissions xs + submissions ys"
  by (simp_all add: submissions_def)

lemma poll_job_counts [simp]:
  "count_list (snd (poll_job ps)) (Sleep 20) = 0"
  "submissions (snd (poll_job ps)) = 0"
  by (induction ps rule: poll_job.induct) (auto split: prod.splits)

lemma run_adreport_counts [simp]:
  "count_list (snd (run_adreport account_id rg a)) (Sleep 20) = 0"
  "submissions (snd (run_adreport account_id rg a)) = 1"
proof -
  obtain r evs where p: "poll_job (polls a) = (r, evs)" by (cases "poll_job (polls a)")
  have "count_list evs (Sleep 20) = 0" "submissions evs = 0"
    using poll_job_counts [of "polls a"] p by simp_all
  with p show "count_list (snd (run_adreport account_id rg a)) (Sleep 20) = 0"
    "submissions (snd (run_adreport account_id rg a)) = 1"
    by (simp_all add: run_adreport_def split: option.splits)
qed

lemma singer_output_counts [simp]:
  "count_list (singer_output evs) (Sleep 20) = 0"
  "submissions (singer_output evs) = 0"
  by (induction evs) (auto simp: singer_output_def submissions_def split: event.splits)

lemma emit_records_counts [simp]:
  "count_list (events (emit_records account_id tap_stream_id rows st prev)) (Sleep 20) = 0"
  "submissions (events (emit_records account_id tap_stream_id rows st prev)) = 0"
  using singer_output_counts [of "events (emit_records account_id tap_stream_id rows st prev)"]
  by simp_all

lemma run_attempt_counts [simp]:
  "count_list (events (run_attempt account_id tap_stream_id rg a st prev)) (Sleep 20) = 0"
  "submissions (events (run_attempt account_id tap_stream_id rg a st prev)) = 1"
proof -
  obtain r evs where p: "run_adreport account_id rg a = (r, evs)"
    by (cases "run_adreport account_id rg a")
  have c: "count_list evs (Sleep 20) = 0" "submissions evs = 1"
    using run_adreport_counts [of account_id rg a] p by simp_all
  note e = emit_records_counts [of account_id tap_stream_id "results a" st prev]
  show "count_list (events (run_attempt account_id tap_stream_id rg a st prev)) (Sleep 20) = 0"
    using p c e
    by (auto simp: run_attempt_def Let_def split: option.splits sum.splits outcome.splits)
  show "submissions (events (run_attempt account_id tap_stream_id rg a st prev)) = 1"
    using p c e
    by (auto simp: run_attempt_def Let_def split: option.splits sum.splits outcome.splits)
qed






lemma example_date_isoformat:
  "date_isoformat 738889 = ''2024-01-04''"
  "date_isoformat 738890 = ''2024-01-05''"
  "date_isoformat 738891 = ''2024-01-06''"
  "date_isoformat 738892 = ''2024-01-07''"
  "date_isoformat 738893 = ''2024-01-08''"
  by (simp_all add: calendar_defs Let_def zfill_width)

lemma run_adreport_raising:
  "run_adreport account_id rg (remote_raising e rg n) =
     (Some (Inl e), [Get_insights account_id (date_isoformat (fst rg)) (date_isoformat (snd rg))])"
  by (simp add: run_adreport_def remote_raising_def)


section \<open>The invariant of the loops\<close>

lemma emitted_keys_simps [simp]:
  "emitted_keys [] = []"
  "emitted_keys (Write_state s # evs) = emitted_keys evs"
  "emitted_keys (Write_record t i # evs) =
     (case map_of i bookmark_key of None \<Rightarrow> [] | Some k \<Rightarrow> [k]) @ emitted_keys evs"
  "emitted_keys (Get_insights a b c # evs) = emitted_keys evs"
  "emitted_keys (Api_get # evs) = emitted_keys evs"
  "emitted_keys (Sleep n # evs) = emitted_keys evs"
  "emitted_keys (Log_error m # evs) = emitted_keys evs"
  "emitted_keys (Log_info m # evs) = emitted_keys evs"
  "emitted_keys (Log_warning m # evs) = emitted_keys evs"
  "emitted_keys (xs @ ys) = emitted_keys xs @ emitted_keys ys"
  by (simp_all add: emitted_keys_def)

lemma emitted_keys_singer_output [simp]: "emitted_keys (singer_output evs) = emitted_keys evs"
  by (induction evs) (auto simp: singer_output_def emitted_keys_def split: event.splits)

lemma no_singer_output:
  assumes "singer_output evs = []"
  shows "written_states evs = []" "written_records evs = []" "emitted_keys evs = []"
proof -
  show "written_states evs = []"
    using written_of_singer_output(1) [of evs] assms by simp
  show "written_records evs = []"
    using written_of_singer_output(2) [of evs] assms by simp
  show "emitted_keys evs = []"
    using emitted_keys_singer_output [of evs] assms by simp
qed

lemma segment_outcome [simp]:
  "segment account_id tap_stream_id st prev (r\<lparr>outcome := out\<rparr>) =
     segment account_id tap_stream_id st prev r"
  by (simp add: segment_def)

lemma segment_idle:
  assumes "singer_output evs = []"
  shows "segment account_id tap_stream_id st prev
           \<lparr>outcome = out, run_state = st, prev_bookmark = prev, events = evs\<rparr>"
proof -
  have "sorted_wrt (<) ([] :: string list)
      \<and> map (stored_bookmark tap_stream_id account_id) [] = map stored_form []
      \<and> (\<forall>k \<in> set ([] :: string list). isoparse k \<noteq> None
           \<and> (\<forall>p. prev = Some p \<and> p \<noteq> [] \<longrightarrow> p \<le> k)
           \<and> (\<exists>q. prev = Some q \<and> k < q))"
    by simp
  then show ?thesis
    unfolding segment_def using no_singer_output [OF assms] by (auto intro: exI [of _ "[]"])
qed

lemma last_written:
  "last (last (st # xs) # ys) = last (st # xs @ ys)"
  by (cases ys) simp_all

lemma segment_compose:
  assumes a: "segment account_id tap_stream_id st prev r1"
    and b: "segment account_id tap_stream_id (run_state r1) (prev_bookmark r1) r2"
    and m: "singer_output mid = []"
  shows "segment account_id tap_stream_id st prev (before (events r1 @ mid) r2)"
proof -
  note n = no_singer_output [OF m]
  from a obtain ks1 where k1: "sorted_wrt (<) ks1"
    "map (stored_bookmark tap_stream_id account_id) (written_states (events r1)) = map stored_form ks1"
    "\<forall>k \<in> set ks1. isoparse k \<noteq> None \<and> (\<forall>p. prev = Some p \<and> p \<noteq> [] \<longrightarrow> p \<le> k)
        \<and> (\<exists>q. prev_bookmark r1 = Some q \<and> k < q)"
    unfolding segment_def by blast
  from b obtain ks2 where k2: "sorted_wrt (<) ks2"
    "map (stored_bookmark tap_stream_id account_id) (written_states (events r2)) = map stored_form ks2"
    "\<forall>k \<in> set ks2. isoparse k \<noteq> None
        \<and> (\<forall>p. prev_bookmark r1 = Some p \<and> p \<noteq> [] \<longrightarrow> p \<le> k)
        \<and> (\<exists>q. prev_bookmark r2 = Some q \<and> k < q)"
    unfolding segment_def by blast
  have grow1: "\<forall>p. prev = Some p \<and> p \<noteq> [] \<longrightarrow> (\<exists>p'. prev_bookmark r1 = Some p' \<and> p \<le> p')"
    using a unfolding segment_def by blast
  have grow2: "\<forall>p. prev_bookmark r1 = Some p \<and> p \<noteq> [] \<longrightarrow> (\<exists>p'. prev_bookmark r2 = Some p' \<and> p \<le> p')"
    using b unfolding segment_def by blast
  have nonempty: "q \<noteq> []" if "k < q" for k q :: string
    using that by auto
  have c1: "written_records (events r1 @ mid @ events r2) = [] \<longrightarrow>
        written_states (events r1 @ mid @ events r2) = [] \<and> prev_bookmark r2 = prev"
    using a b n unfolding segment_def by simp
  have c2: "run_state r2 = last (st # written_states (events r1 @ mid @ events r2))"
    using a b n last_written [of st "written_states (events r1)" "written_states (events r2)"]
    unfolding segment_def by simp
  have c3: "\<forall>p. prev = Some p \<and> p \<noteq> [] \<longrightarrow> (\<exists>p'. prev_bookmark r2 = Some p' \<and> p \<le> p')"
  proof (intro allI impI)
    fix p assume "prev = Some p \<and> p \<noteq> []"
    with grow1 obtain p1 where p1: "prev_bookmark r1 = Some p1" "p \<le> p1" by blast
    with \<open>prev = Some p \<and> p \<noteq> []\<close> have "p1 \<noteq> []" by auto
    with grow2 p1 obtain p2 where "prev_bookmark r2 = Some p2" "p1 \<le> p2" by blast
    with p1 show "\<exists>p'. prev_bookmark r2 = Some p' \<and> p \<le> p'" by auto
  qed
  have c4: "prev_bookmark r2 = None \<longrightarrow>
        prev = None \<and> emitted_keys (events r1 @ mid @ events r2) = []
        \<and> written_states (events r1 @ mid @ events r2) = []"
    using a b n unfolding segment_def by simp
  have c5: "\<forall>q. prev_bookmark r2 = Some q \<longrightarrow>
        prev = Some q \<or> q \<in> set (emitted_keys (events r1 @ mid @ events r2))"
    using a b n unfolding segment_def by auto
  have s: "sorted_wrt (<) (ks1 @ ks2)"
  proof -
    have "x < y" if "x \<in> set ks1" "y \<in> set ks2" for x y
    proof -
      from k1(3) that(1) obtain q where q: "prev_bookmark r1 = Some q" "x < q" by blast
      then have "q \<noteq> []" using nonempty by blast
      with k2(3) that(2) q have "q \<le> y" by blast
      with q show ?thesis by simp
    qed
    with k1(1) k2(1) show ?thesis by (simp add: sorted_wrt_append)
  qed
  have w: "map (stored_bookmark tap_stream_id account_id)
             (written_states (events r1 @ mid @ events r2)) = map stored_form (ks1 @ ks2)"
    using k1(2) k2(2) n by simp
  have e: "\<forall>k \<in> set (ks1 @ ks2). isoparse k \<noteq> None
        \<and> (\<forall>p. prev = Some p \<and> p \<noteq> [] \<longrightarrow> p \<le> k)
        \<and> (\<exists>q. prev_bookmark r2 = Some q \<and> k < q)"
  proof
    fix k assume "k \<in> set (ks1 @ ks2)"
    then consider "k \<in> set ks1" | "k \<in> set ks2" by auto
    then show "isoparse k \<noteq> None \<and> (\<forall>p. prev = Some p \<and> p \<noteq> [] \<longrightarrow> p \<le> k)
        \<and> (\<exists>q. prev_bookmark r2 = Some q \<and> k < q)"
    proof cases
      case 1
      with k1(3) obtain q where q: "prev_bookmark r1 = Some q" "k < q" by blast
      then have "q \<noteq> []" using nonempty by blast
      with grow2 q obtain q2 where "prev_bookmark r2 = Some q2" "q \<le> q2" by blast
      with q have "\<exists>q. prev_bookmark r2 = Some q \<and> k < q" by auto
      with k1(3) 1 show ?thesis by blast
    next
      case 2
      have "\<forall>p. prev = Some p \<and> p \<noteq> [] \<longrightarrow> p \<le> k"
      proof (intro allI impI)
        fix p assume p: "prev = Some p \<and> p \<noteq> []"
        with grow1 obtain p1 where p1: "prev_bookmark r1 = Some p1" "p \<le> p1" by blast
        with p have "p1 \<noteq> []" by auto
        with k2(3) 2 p1 have "p1 \<le> k" by blast
        with p1 show "p \<le> k" by simp
      qed
      with k2(3) 2 show ?thesis by blast
    qed
  qed
  from s w e have c6: "\<exists>ks. sorted_wrt (<) ks
      \<and> map (stored_bookmark tap_stream_id account_id)
           (written_states (events r1 @ mid @ events r2)) = map stored_form ks
      \<and> (\<forall>k \<in> set ks. isoparse k \<noteq> None
           \<and> (\<forall>p. prev = Some p \<and> p \<noteq> [] \<longrightarrow> p \<le> k)
           \<and> (\<exists>q. prev_bookmark r2 = Some q \<and> k < q))"
    by blast
  from c1 c2 c3 c4 c5 c6 show ?thesis
    unfolding segment_def by simp
qed

lemma segment_no_write:
  assumes "written_states evs = []" 
    and "written_records evs = [] \<longrightarrow> prev' = prev"
    and "\<forall>p. prev = Some p \<and> p \<noteq> [] \<longrightarrow> prev' = prev"
    and "prev' = None \<longrightarrow> prev = None \<and> emitted_keys evs = []"
    and "\<forall>q. prev' = Some q \<longrightarrow> prev = Some q \<or> q \<in> set (emitted_keys evs)"
  shows "segment account_id tap_stream_id st prev
           \<lparr>outcome = out, run_state = st, prev_bookmark = prev', events = evs\<rparr>"
proof -
  have "sorted_wrt (<) ([] :: string list)
      \<and> map (stored_bookmark tap_stream_id account_id) (written_states evs) = map stored_form []
      \<and> (\<forall>k \<in> set ([] :: string list). isoparse k \<noteq> None
           \<and> (\<forall>p. prev = Some p \<and> p \<noteq> [] \<longrightarrow> p \<le> k)
           \<and> (\<exists>q. prev' = Some q \<and> k < q))"
    using assms(1) by simp
  then have "\<exists>ks. sorted_wrt (<) ks
      \<and> map (stored_bookmark tap_stream_id account_id) (written_states evs) = map stored_form ks
      \<and> (\<forall>k \<in> set ks. isoparse k \<noteq> None
           \<and> (\<forall>p. prev = Some p \<and> p \<noteq> [] \<longrightarrow> p \<le> k)
           \<and> (\<exists>q. prev' = Some q \<and> k < q))"
    by blast
  with assms show ?thesis
    unfolding segment_def by auto
qed

lemma segment_advance:
  assumes "p \<noteq> []" "p < new" "isoparse p = Some t" "map_of insight bookmark_key = Some new"
    and "st' = write_bookmark st tap_stream_id account_id [(bookmark_key, isoformat t)]"
  shows "segment account_id tap_stream_id st (Some p)
           \<lparr>outcome = out, run_state = st', prev_bookmark = Some new,
            events = [Write_record tap_stream_id insight, Write_state st']\<rparr>"
proof -
  have "sorted_wrt (<) [p]
      \<and> map (stored_bookmark tap_stream_id account_id) [st'] = map stored_form [p]
      \<and> (\<forall>k \<in> set [p]. isoparse k \<noteq> None
           \<and> (\<forall>p'. Some p = Some p' \<and> p' \<noteq> [] \<longrightarrow> p' \<le> k)
           \<and> (\<exists>q. Some new = Some q \<and> k < q))"
    using assms by (simp add: stored_form_def)
  then have "\<exists>ks. sorted_wrt (<) ks
      \<and> map (stored_bookmark tap_stream_id account_id) [st'] = map stored_form ks
      \<and> (\<forall>k \<in> set ks. isoparse k \<noteq> None
           \<and> (\<forall>p'. Some p = Some p' \<and> p' \<noteq> [] \<longrightarrow> p' \<le> k)
           \<and> (\<exists>q. Some new = Some q \<and> k < q))"
    by blast
  with assms show ?thesis
    unfolding segment_def by simp
qed

lemma emit_records_segment:
  "segment account_id tap_stream_id st prev (emit_records account_id tap_stream_id rows st prev)"
proof (induction rows arbitrary: st prev)
  case Nil
  show ?case using segment_idle [of "[]"] by simp
next
  case (Cons insight rest)
  show ?case
  proof (cases "map_of insight bookmark_key")
    case None
    have "segment account_id tap_stream_id st prev
        \<lparr>outcome = Raised KeyError, run_state = st, prev_bookmark = prev,
         events = [Write_record tap_stream_id insight]\<rparr>"
      by (rule segment_no_write) (simp_all add: None)
    with None show ?thesis by simp
  next
    case (Some new_bookmark)
    define prev1 where "prev1 = (case prev of None \<Rightarrow> new_bookmark
                                  | Some p \<Rightarrow> if p = [] then new_bookmark else p)"
    show ?thesis
    proof (cases "prev1 < new_bookmark")
      case False
      let ?r1 = "\<lparr>outcome = Returned, run_state = st, prev_bookmark = Some prev1,
                  events = [Write_record tap_stream_id insight]\<rparr>"
      have s1: "segment account_id tap_stream_id st prev ?r1"
        by (rule segment_no_write) (auto simp: Some prev1_def split: option.splits)
      have "emit_records account_id tap_stream_id (insight # rest) st prev =
          before (events ?r1 @ [])
            (emit_records account_id tap_stream_id rest (run_state ?r1) (prev_bookmark ?r1))"
        using Some False by (simp add: prev1_def [symmetric] Let_def)
      moreover have "segment account_id tap_stream_id st prev
          (before (events ?r1 @ [])
            (emit_records account_id tap_stream_id rest (run_state ?r1) (prev_bookmark ?r1)))"
        by (rule segment_compose [OF s1 Cons.IH]) simp
      ultimately show ?thesis by simp
    next
      case True
      then have pv: "prev = Some prev1" "prev1 \<noteq> []"
        by (auto simp: prev1_def split: option.splits if_splits)
      show ?thesis
      proof (cases "isoparse prev1")
        case None
        have "segment account_id tap_stream_id st prev
            \<lparr>outcome = Raised (isoparse_error prev1), run_state = st,
             prev_bookmark = Some prev1,
             events = [Write_record tap_stream_id insight]\<rparr>"
          by (rule segment_no_write) (simp_all add: Some pv)
        with None Some True pv show ?thesis
          by (simp add: advance_bookmark_def Let_def)
      next
        case t: (Some t)
        define st' where
          "st' = write_bookmark st tap_stream_id account_id [(bookmark_key, isoformat t)]"
        let ?r1 = "\<lparr>outcome = Returned, run_state = st', prev_bookmark = Some new_bookmark,
                    events = [Write_record tap_stream_id insight, Write_state st']\<rparr>"
        have s1: "segment account_id tap_stream_id st prev ?r1"
          unfolding pv(1) by (rule segment_advance [OF pv(2) True t Some st'_def])
        have "emit_records account_id tap_stream_id (insight # rest) st prev =
            before (events ?r1 @ [])
              (emit_records account_id tap_stream_id rest (run_state ?r1) (prev_bookmark ?r1))"
          using Some True t pv by (simp add: advance_bookmark_def Let_def st'_def)
        moreover have "segment account_id tap_stream_id st prev
            (before (events ?r1 @ [])
              (emit_records account_id tap_stream_id rest (run_state ?r1) (prev_bookmark ?r1)))"
          by (rule segment_compose [OF s1 Cons.IH]) simp
        ultimately show ?thesis by simp
      qed
    qed
  qed
qed

lemma segment_before:
  assumes "singer_output evs = []" "segment account_id tap_stream_id st prev r"
  shows "segment account_id tap_stream_id st prev (before evs r)"
proof -
  have i: "segment account_id tap_stream_id st prev
      \<lparr>outcome = Returned, run_state = st, prev_bookmark = prev, events = []\<rparr>"
    by (rule segment_idle) simp
  from segment_compose [OF i _ assms(1), of r] assms(2) show ?thesis by simp
qed

lemma run_attempt_segment:
  "segment account_id tap_stream_id st prev (run_attempt account_id tap_stream_id rg a st prev)"
proof -
  obtain res evs where p: "run_adreport account_id rg a = (res, evs)"
    by (cases "run_adreport account_id rg a")
  have so: "singer_output evs = []"
    using run_adreport_singer_output [of account_id rg a] p by simp
  let ?e = "emit_records account_id tap_stream_id (results a) st prev"
  show ?thesis
  proof (cases res)
    case None
    with p so show ?thesis by (simp add: run_attempt_def segment_idle)
  next
    case (Some x)
    show ?thesis
    proof (cases x)
      case (Inl e)
      with Some p so show ?thesis by (simp add: run_attempt_def segment_idle)
    next
      case (Inr h)
      have "segment account_id tap_stream_id st prev
          (before evs (case outcome ?e of
                   Returned \<Rightarrow>
                     (case results_error a of None \<Rightarrow> ?e | Some e \<Rightarrow> ?e\<lparr>outcome := Raised e\<rparr>)
                 | _ \<Rightarrow> ?e))"
        by (rule segment_before [OF so])
          (simp add: emit_records_segment split: outcome.splits option.splits)
      with Inr Some p show ?thesis by (simp add: run_attempt_def Let_def)
    qed
  qed
qed

lemma retry_range_segment:
  "segment account_id tap_stream_id st prev
     (retry_range remote account_id tap_stream_id rg attempt st prev)"
proof (induction remote account_id tap_stream_id rg attempt st prev rule: retry_range.induct)
  case (1 remote account_id tap_stream_id rg attempt st prev)
  let ?r = "run_attempt account_id tap_stream_id rg (remote rg attempt) st prev"
  show ?case
  proof (cases "temporary_async_error (outcome ?r) \<and> attempt < 5")
    case False
    then show ?thesis
      using retry_range_final [of account_id tap_stream_id rg remote attempt st prev]
        run_attempt_segment [of account_id tap_stream_id st prev rg "remote rg attempt"]
      by auto
  next
    case True
    have "segment account_id tap_stream_id st prev
        (before (events ?r @ [Log_warning Retrying_in_20s, Sleep 20])
           (retry_range remote account_id tap_stream_id rg (attempt + 1)
              (run_state ?r) (prev_bookmark ?r)))"
      by (rule segment_compose [OF run_attempt_segment "1.IH" [OF refl True]]) simp
    with True show ?thesis
      using retry_range_again [of account_id tap_stream_id rg remote attempt st prev] by simp
  qed
qed

lemma process_ranges_segment:
  "segment account_id tap_stream_id st prev
     (process_ranges remote account_id tap_stream_id rgs st prev)"
proof (induction rgs arbitrary: st prev)
  case Nil
  show ?case using segment_idle [of "[]"] by simp
next
  case (Cons rg rgs)
  let ?r = "retry_range remote account_id tap_stream_id rg 0 st prev"
  show ?case
  proof (cases "outcome ?r = Returned")
    case False
    with retry_range_segment [of account_id tap_stream_id st prev remote rg 0] show ?thesis
      by (cases "outcome ?r") (simp_all add: Let_def)
  next
    case True
    have "segment account_id tap_stream_id st prev
        (before (events ?r @ [])
           (process_ranges remote account_id tap_stream_id rgs (run_state ?r) (prev_bookmark ?r)))"
      by (rule segment_compose [OF retry_range_segment Cons.IH]) simp
    with True show ?thesis by (simp add: Let_def)
  qed
qed

section \<open>The flush on an error\<close>

lemma isoparse_Nil [simp]: "isoparse [] = None"
  by (simp add: isoparse_def dateutil_isoparse_def parse_isodate_def parse_isodate_common_def
      parse_isodate_uncommon_def)

lemma advance_bookmark_falsy:
  "\<not> truthy b \<Longrightarrow> advance_bookmark account_id st b tap_stream_id = (Inr st, [Write_state st])"
  by (simp add: advance_bookmark_def)


lemma process_account_raised:
  assumes "resolve_start cfg clk account_id st tap_stream_id = Inr start"
    and "r = process_ranges remote account_id tap_stream_id
               (time_ranges (parse_date start) (today clk - 1)) st None"
    and "outcome r = Raised e"
  shows "process_account cfg clk remote account_id tap_stream_id st =
           before (events r)
             (flush_on_error account_id tap_stream_id e (run_state r) (prev_bookmark r))"
  using assms by (simp add: process_account_def Let_def)

text \<open>
  Claim C10. Called with a bookmark that is not truthy (\<^verbatim>\<open>None\<close>, the empty string),
  \<^verbatim>\<open>__advance_bookmark\<close> writes the state as it is and returns it. So when the loop over
  the ranges raises before any record has been written, \<^verbatim>\<open>process_account\<close> writes the
  state it was given, unchanged, as its last effect and raises the same exception.
\<close>

theorem flush_without_bookmark:
  "(\<not> truthy b \<longrightarrow>
      advance_bookmark account_id st b tap_stream_id = (Inr st, [Write_state st]))
   \<and> (resolve_start cfg clk account_id st tap_stream_id = Inr start
        \<and> r = process_ranges remote account_id tap_stream_id
                 (time_ranges (parse_date start) (today clk - 1)) st None
        \<and> outcome r = Raised e \<and> written_records (events r) = [] \<longrightarrow>
      process_account cfg clk remote account_id tap_stream_id st =
        \<lparr>outcome = Raised e, run_state = st, prev_bookmark = None,
         events = events r @ [Write_state st]\<rparr>)"
proof (intro conjI impI)
  assume "\<not> truthy b"
  then show "advance_bookmark account_id st b tap_stream_id = (Inr st, [Write_state st])"
    by (rule advance_bookmark_falsy)
next
  assume h: "resolve_start cfg clk account_id st tap_stream_id = Inr start
        \<and> r = process_ranges remote account_id tap_stream_id
                 (time_ranges (parse_date start) (today clk - 1)) st None
        \<and> outcome r = Raised e \<and> written_records (events r) = []"
  then have s: "segment account_id tap_stream_id st None r"
    using process_ranges_segment by simp
  from h have wr: "written_records (events r) = []" by blast
  from s wr have p: "prev_bookmark r = None" unfolding segment_def by blast
  from s wr have w: "written_states (events r) = []" unfolding segment_def by blast
  from s have "run_state r = last (st # written_states (events r))"
    unfolding segment_def by blast
  with w have st: "run_state r = st" by simp
  from h have "process_account cfg clk remote account_id tap_stream_id st =
      before (events r)
        (flush_on_error account_id tap_stream_id e (run_state r) (prev_bookmark r))"
    using process_account_raised by blast
  then show "process_account cfg clk remote account_id tap_stream_id st =
        \<lparr>outcome = Raised e, run_state = st, prev_bookmark = None,
         events = events r @ [Write_state st]\<rparr>"
    by (simp add: p st flush_on_error_def as_bookmark_def advance_bookmark_falsy before_def)
qed


section \<open>Evaluation of failing runs\<close>

lemma row_of_day_key [simp]: "map_of (row_of_day d) bookmark_key = Some d"
  by (simp add: row_of_day_def bookmark_key_def)






lemma example_raising_ranges:
  "process_ranges (remote_raising e) ''act_1'' ''ads_insights''
     [(738889, 738890), (738891, 738892), (738893, 738893)] example_state None =
     (if temporary_async_error (Raised e) then
        \<lparr>outcome = Raised e, run_state = example_state, prev_bookmark = None,
         events =
        [Get_insights ''act_1'' ''2024-01-04'' ''2024-01-05'', Log_warning Retrying_in_20s, Sleep 20,
         Get_insights ''act_1'' ''2024-01-04'' ''2024-01-05'', Log_warning Retrying_in_20s, Sleep 20,
         Get_insights ''act_1'' ''2024-01-04'' ''2024-01-05'', Log_warning Retrying_in_20s, Sleep 20,
         Get_insights ''act_1'' ''2024-01-04'' ''2024-01-05'', Log_warning Retrying_in_20s, Sleep 20,
         Get_insights ''act_1'' ''2024-01-04'' ''2024-01-05'', Log_warning Retrying_in_20s, Sleep 20,
         Get_insights ''act_1'' ''2024-01-04'' ''2024-01-05'']\<rparr>
      else
        \<lparr>outcome = Raised e, run_state = example_state, prev_bookmark = None,
         events = [Get_insights ''act_1'' ''2024-01-04'' ''2024-01-05'']\<rparr>)"
  by (simp add: retry_range.simps run_attempt_def run_adreport_raising
      example_date_isoformat before_def Let_def)

theorem flush_without_bookmark_witness:
  "\<not> truthy B_None
   \<and> advance_bookmark ''act_1'' example_state B_None ''ads_insights'' =
       (Inr example_state, [Write_state example_state])
   \<and> resolve_start \<lparr>start_date = None\<rparr> example_clock ''act_1'' example_state ''ads_insights'' =
       Inr \<lparr>naive = 63840009600000000, utcoffset = None\<rparr>
   \<and> process_account \<lparr>start_date = None\<rparr> example_clock
       (remote_raising (FacebookRequestError (Some 190) None))
       ''act_1'' ''ads_insights'' example_state =
       \<lparr>outcome = Raised (FacebookRequestError (Some 190) None), run_state = example_state,
        prev_bookmark = None,
        events = [Get_insights ''act_1'' ''2024-01-04'' ''2024-01-05'',
                  Write_state example_state]\<rparr>"
proof -
  let ?e = "FacebookRequestError (Some 190) None"
  let ?r = "process_ranges (remote_raising ?e) ''act_1'' ''ads_insights''
        (time_ranges (parse_date \<lparr>naive = 63840009600000000, utcoffset = None\<rparr>) (today example_clock - 1))
        example_state None"
  have r: "?r = \<lparr>outcome = Raised ?e, run_state = example_state, prev_bookmark = None,
         events = [Get_insights ''act_1'' ''2024-01-04'' ''2024-01-05'']\<rparr>"
    by (simp add: example_time_ranges example_raising_ranges del: process_ranges.simps)
  note t = flush_without_bookmark
    [where b = B_None and account_id = "''act_1''" and st = example_state
       and tap_stream_id = "''ads_insights''" and cfg = "\<lparr>start_date = None\<rparr>"
       and clk = example_clock and start = "\<lparr>naive = 63840009600000000, utcoffset = None\<rparr>"
       and remote = "remote_raising ?e" and r = ?r and e = ?e]
  have a: "advance_bookmark ''act_1'' example_state B_None ''ads_insights'' =
       (Inr example_state, [Write_state example_state])"
    using t by simp
  have b: "process_account \<lparr>start_date = None\<rparr> example_clock (remote_raising ?e)
       ''act_1'' ''ads_insights'' example_state =
       \<lparr>outcome = Raised ?e, run_state = example_state, prev_bookmark = None,
        events = events ?r @ [Write_state example_state]\<rparr>"
    using t example_resolve_start by (simp add: r)
  from a b example_resolve_start show ?thesis by (simp add: r)
qed

section \<open>The bookmarks written in one run\<close>











section \<open>Properties of the throttle test and of the retry of \<^verbatim>\<open>__do\<close>\<close>

lemma is_throttle_no_error_object:
  assumes "body resp = Some (J_dict kvs)" "''error'' \<notin> set (map fst kvs)"
  shows "is_throttle json_loads (Request_exception (Some resp)) = (Inr True, [])"
  using assms by (simp add: is_throttle_def)

lemma map_of_key: "map_of kvs k = Some v \<Longrightarrow> k \<in> set (map fst kvs)"
  by (induction kvs) (auto split: if_splits)

lemma is_throttle_error_object:
  assumes "body resp = Some (J_dict kvs)" "map_of kvs ''error'' = Some (J_dict error)"
  shows "is_throttle json_loads (Request_exception (Some resp)) =
    (if \<not> py_truthy (dict_get error ''is_transient'' (J_bool False)) then (Inr True, [])
     else if \<not> rate_limit_error error then (Inr False, [])
     else (case map_of (headers resp) ''x-business-use-case-usage'' of
             None \<Rightarrow> (Inr False, [])
           | Some use_case_usage_str \<Rightarrow>
               if use_case_usage_str = [] then (Inr False, [])
               else (case json_loads use_case_usage_str of
                       None \<Rightarrow> (Inl ValueError, [])
                     | Some (J_dict use_case_usage) \<Rightarrow> scan_usage use_case_usage
                     | Some v \<Rightarrow> (Inl AttributeError, []))))"
  using assms map_of_key [OF assms(2)]
  by (simp add: is_throttle_def rate_limit_error_def Let_def)

lemma do_with_backoff_give_up:
  assumes "is_throttle json_loads err = (Inr True, evs)"
  shows "do_with_backoff json_loads (Raises err # rest) n = (Some (Gave_up err), Request # evs)"
  using assms by simp

lemma do_with_backoff_retry:
  assumes "is_throttle json_loads err = (Inr False, evs)"
  shows "do_with_backoff json_loads (Raises err # rest) n =
    (fst (do_with_backoff json_loads rest (Suc n)),
     Request # evs @ [Backoff_sleep (2 ^ n)] @ snd (do_with_backoff json_loads rest (Suc n)))"
  using assms by (simp split: prod.splits)

text \<open>
  Against claim C8 as stated. A request fails with status 500 and a JSON body without an
  error object; the next call would succeed. \<^verbatim>\<open>is_throttle\<close> returns true, which tells
  the decorator to give up: the exception is raised after the one request, without a retry.
\<close>

theorem no_error_object_counterexample:
  "is_throttle example_loads (Request_exception (Some plain_failure)) = (Inr True, [])
   \<and> do_with_backoff example_loads
        [Raises (Request_exception (Some plain_failure)), Returns (J_dict [(''data'', J_list [])])] 0 =
       (Some (Gave_up (Request_exception (Some plain_failure))), [Request])"
  by (simp add: is_throttle_def plain_failure_def)

text \<open>
  Claim C8, as amended. A failed request whose JSON body has no error object is not
  retried: \<^verbatim>\<open>is_throttle\<close> returns true and the decorator raises the exception after that
  one request. The same holds for an error object that is not marked transient. A body
  that does not decode makes \<^verbatim>\<open>is_throttle\<close> itself raise, which ends the loop as well.
\<close>

theorem unclassified_errors_are_given_up:
  "(body resp = Some (J_dict kvs) \<and> ''error'' \<notin> set (map fst kvs) \<longrightarrow>
      is_throttle json_loads (Request_exception (Some resp)) = (Inr True, [])
      \<and> do_with_backoff json_loads (Raises (Request_exception (Some resp)) # rest) n =
          (Some (Gave_up (Request_exception (Some resp))), [Request]))
   \<and> (body resp = Some (J_dict kvs) \<and> map_of kvs ''error'' = Some (J_dict error)
        \<and> \<not> py_truthy (dict_get error ''is_transient'' (J_bool False)) \<longrightarrow>
      is_throttle json_loads (Request_exception (Some resp)) = (Inr True, [])
      \<and> do_with_backoff json_loads (Raises (Request_exception (Some resp)) # rest) n =
          (Some (Gave_up (Request_exception (Some resp))), [Request]))
   \<and> (body resp = None \<longrightarrow>
      do_with_backoff json_loads (Raises (Request_exception (Some resp)) # rest) n =
          (Some (Failed ValueError), [Request]))"
proof (intro conjI impI)
  assume h: "body resp = Some (J_dict kvs) \<and> ''error'' \<notin> set (map fst kvs)"
  then show a: "is_throttle json_loads (Request_exception (Some resp)) = (Inr True, [])"
    using is_throttle_no_error_object [of resp kvs json_loads] by blast
  show "do_with_backoff json_loads (Raises (Request_exception (Some resp)) # rest) n =
          (Some (Gave_up (Request_exception (Some resp))), [Request])"
    by (rule do_with_backoff_give_up [OF a])
next
  assume h: "body resp = Some (J_dict kvs) \<and> map_of kvs ''error'' = Some (J_dict error)
        \<and> \<not> py_truthy (dict_get error ''is_transient'' (J_bool False))"
  then show a: "is_throttle json_loads (Request_exception (Some resp)) = (Inr True, [])"
    using is_throttle_error_object [of resp kvs error json_loads] by simp
  show "do_with_backoff json_loads (Raises (Request_exception (Some resp)) # rest) n =
          (Some (Gave_up (Request_exception (Some resp))), [Request])"
    by (rule do_with_backoff_give_up [OF a])
next
  assume "body resp = None"
  then show "do_with_backoff json_loads (Raises (Request_exception (Some resp)) # rest) n =
          (Some (Failed ValueError), [Request])"
    by (simp add: is_throttle_def)
qed

theorem unclassified_errors_are_given_up_witness:
  "body plain_failure = Some (J_dict [(''message'', J_str ''Internal Server Error'')])
   \<and> ''error'' \<notin> set (map fst [(''message'', J_str ''Internal Server Error'')])
   \<and> do_with_backoff example_loads
        [Raises (Request_exception (Some plain_failure)), Returns (J_dict [(''data'', J_list [])])] 0 =
       (Some (Gave_up (Request_exception (Some plain_failure))), [Request])
   \<and> do_with_backoff example_loads
        [Raises (Request_exception (Some \<lparr>status_code = 400, headers = [],
           body = Some (J_dict [(''error'', J_dict [(''code'', J_int 190),
                                  (''is_transient'', J_bool False)])])\<rparr>)),
         Returns (J_dict [(''data'', J_list [])])] 0 =
       (Some (Gave_up (Request_exception (Some \<lparr>status_code = 400, headers = [],
           body = Some (J_dict [(''error'', J_dict [(''code'', J_int 190),
                                  (''is_transient'', J_bool False)])])\<rparr>))), [Request])"
proof -
  have a: "body plain_failure = Some (J_dict [(''message'', J_str ''Internal Server Error'')])
      \<and> ''error'' \<notin> set (map fst [(''message'', J_str ''Internal Server Error'')])"
    by (simp add: plain_failure_def)
  note t1 = unclassified_errors_are_given_up
    [where resp = plain_failure and kvs = "[(''message'', J_str ''Internal Server Error'')]"
       and json_loads = example_loads and n = 0
       and rest = "[Returns (J_dict [(''data'', J_list [])])]"]
  note t2 = unclassified_errors_are_given_up
    [where resp = "\<lparr>status_code = 400, headers = [],
           body = Some (J_dict [(''error'', J_dict [(''code'', J_int 190),
                                  (''is_transient'', J_bool False)])])\<rparr>"
       and kvs = "[(''error'', J_dict [(''code'', J_int 190), (''is_transient'', J_bool False)])]"
       and error = "[(''code'', J_int 190), (''is_transient'', J_bool False)]"
       and json_loads = example_loads and n = 0
       and rest = "[Returns (J_dict [(''data'', J_list [])])]"]
  from a t1 have b: "do_with_backoff example_loads
        [Raises (Request_exception (Some plain_failure)), Returns (J_dict [(''data'', J_list [])])] 0 =
       (Some (Gave_up (Request_exception (Some plain_failure))), [Request])"
    by blast
  have c: "do_with_backoff example_loads
        [Raises (Request_exception (Some \<lparr>status_code = 400, headers = [],
           body = Some (J_dict [(''error'', J_dict [(''code'', J_int 190),
                                  (''is_transient'', J_bool False)])])\<rparr>)),
         Returns (J_dict [(''data'', J_list [])])] 0 =
       (Some (Gave_up (Request_exception (Some \<lparr>status_code = 400, headers = [],
           body = Some (J_dict [(''error'', J_dict [(''code'', J_int 190),
                                  (''is_transient'', J_bool False)])])\<rparr>))), [Request])"
    using t2 by (simp add: dict_get_def)
  from a b c show ?thesis by blast
qed

lemma scan_metadata_without_wait:
  "metadata_without_wait ms \<Longrightarrow>
   scan_metadata account_id (ms @ rest) = scan_metadata account_id rest"
  by (induction ms) (auto simp: metadata_without_wait_def)

lemma scan_usage_without_wait:
  "usage_without_wait pre \<Longrightarrow> scan_usage (pre @ rest) = scan_usage rest"
proof (induction pre)
  case Nil
  show ?case by simp
next
  case (Cons entry pre)
  obtain account_id account_metadata where e: "entry = (account_id, account_metadata)"
    by (cases entry)
  from Cons.prems e obtain ms where m: "py_iter account_metadata = Inr ms"
    "metadata_without_wait ms" and r: "usage_without_wait pre"
    by (auto simp: usage_without_wait_def split: sum.splits)
  from scan_metadata_without_wait [OF m(2), of account_id "[]"] Cons.IH [OF r] e m(1)
  show ?case by simp
qed

lemma scan_usage_first_wait:
  assumes "usage_without_wait pre" "metadata_without_wait ms"
    and "map_of metadata ''estimated_time_to_regain_access'' = Some w"
  shows "scan_usage (pre @ (account_id, J_list (ms @ J_dict metadata # others)) # further) =
    (if \<not> py_truthy w then (Inr False, [])
     else (case sleep_seconds w of
             Inl e \<Rightarrow> (Inl e, [Print_waiting w account_id])
           | Inr n \<Rightarrow> (Inr False, [Print_waiting w account_id, Wait n])))"
  unfolding scan_usage_without_wait [OF assms(1)]
  using assms(3) map_of_key [OF assms(3)] scan_metadata_without_wait [OF assms(2)]
  by (simp split: sum.splits)

text \<open>
  Claim C7, as amended. Let the error be transient with one of the codes 80000, 80003,
  80004 and the subcode 2446079. \<^verbatim>\<open>is_throttle\<close> reads the usage header account by
  account and entry by entry, and the first entry that has the key
  \<^verbatim>\<open>estimated_time_to_regain_access\<close> decides alone. If its value is \<open>m > 0\<close> minutes,
  \<^verbatim>\<open>is_throttle\<close> prints a line, sleeps \<open>m * 60\<close> seconds and returns false; the decorator
  then treats the cycle like any other: it also sleeps its own backoff wait, whose bound
  \<open>2 ^ n\<close> is the next of the sequence, and the following cycle continues that sequence
  (the decorator has no attempt budget, and nothing renews its state). If the value of
  that first entry is falsy, \<^verbatim>\<open>is_throttle\<close> returns false without sleeping, whatever the
  later entries say; the same holds when the header is absent or empty or when no entry
  has the key. The call is then retried after the backoff wait.
\<close>

theorem rate_limit_wait_then_backoff:
  "(body resp = Some (J_dict kvs) \<and> map_of kvs ''error'' = Some (J_dict error)
      \<and> rate_limit_error error
      \<and> map_of (headers resp) ''x-business-use-case-usage'' = Some s \<and> s \<noteq> []
      \<and> json_loads s =
          Some (J_dict (pre @ (account_id, J_list (ms @ J_dict metadata # others)) # further))
      \<and> usage_without_wait pre \<and> metadata_without_wait ms
      \<and> map_of metadata ''estimated_time_to_regain_access'' = Some (J_int m) \<and> 0 < m \<longrightarrow>
    is_throttle json_loads (Request_exception (Some resp)) =
      (Inr False, [Print_waiting (J_int m) account_id, Wait (nat (m * 60))])
    \<and> do_with_backoff json_loads (Raises (Request_exception (Some resp)) # rest) n =
        (fst (do_with_backoff json_loads rest (Suc n)),
         [Request, Print_waiting (J_int m) account_id, Wait (nat (m * 60)), Backoff_sleep (2 ^ n)]
           @ snd (do_with_backoff json_loads rest (Suc n))))
   \<and> (body resp = Some (J_dict kvs) \<and> map_of kvs ''error'' = Some (J_dict error)
      \<and> rate_limit_error error
      \<and> (map_of (headers resp) ''x-business-use-case-usage'' = None
          \<or> map_of (headers resp) ''x-business-use-case-usage'' = Some []
          \<or> (\<exists>s usage. map_of (headers resp) ''x-business-use-case-usage'' = Some s
                \<and> json_loads s = Some (J_dict usage) \<and> usage_without_wait usage)
          \<or> (\<exists>s pre account_id ms metadata others further w.
                map_of (headers resp) ''x-business-use-case-usage'' = Some s
                \<and> json_loads s =
                    Some (J_dict (pre @ (account_id, J_list (ms @ J_dict metadata # others))
                                    # further))
                \<and> usage_without_wait pre \<and> metadata_without_wait ms
                \<and> map_of metadata ''estimated_time_to_regain_access'' = Some w
                \<and> \<not> py_truthy w)) \<longrightarrow>
    is_throttle json_loads (Request_exception (Some resp)) = (Inr False, [])
    \<and> do_with_backoff json_loads (Raises (Request_exception (Some resp)) # rest) n =
        (fst (do_with_backoff json_loads rest (Suc n)),
         [Request, Backoff_sleep (2 ^ n)] @ snd (do_with_backoff json_loads rest (Suc n))))"
proof (intro conjI impI)
  assume h: "body resp = Some (J_dict kvs) \<and> map_of kvs ''error'' = Some (J_dict error)
      \<and> rate_limit_error error
      \<and> map_of (headers resp) ''x-business-use-case-usage'' = Some s \<and> s \<noteq> []
      \<and> json_loads s =
          Some (J_dict (pre @ (account_id, J_list (ms @ J_dict metadata # others)) # further))
      \<and> usage_without_wait pre \<and> metadata_without_wait ms
      \<and> map_of metadata ''estimated_time_to_regain_access'' = Some (J_int m) \<and> 0 < m"
  then have b: "body resp = Some (J_dict kvs)" "map_of kvs ''error'' = Some (J_dict error)"
    and p: "usage_without_wait pre" "metadata_without_wait ms"
    and w: "map_of metadata ''estimated_time_to_regain_access'' = Some (J_int m)"
    by simp_all
  have r: "rate_limit_error error \<and> py_truthy (dict_get error ''is_transient'' (J_bool False))"
    using h by (simp add: rate_limit_error_def)
  show a: "is_throttle json_loads (Request_exception (Some resp)) =
      (Inr False, [Print_waiting (J_int m) account_id, Wait (nat (m * 60))])"
    unfolding is_throttle_error_object [OF b]
    using h r scan_usage_first_wait [OF p w, of account_id others further] by simp
  show "do_with_backoff json_loads (Raises (Request_exception (Some resp)) # rest) n =
        (fst (do_with_backoff json_loads rest (Suc n)),
         [Request, Print_waiting (J_int m) account_id, Wait (nat (m * 60)), Backoff_sleep (2 ^ n)]
           @ snd (do_with_backoff json_loads rest (Suc n)))"
    using do_with_backoff_retry [OF a, of rest n] by simp
next
  assume h: "body resp = Some (J_dict kvs) \<and> map_of kvs ''error'' = Some (J_dict error)
      \<and> rate_limit_error error
      \<and> (map_of (headers resp) ''x-business-use-case-usage'' = None
          \<or> map_of (headers resp) ''x-business-use-case-usage'' = Some []
          \<or> (\<exists>s usage. map_of (headers resp) ''x-business-use-case-usage'' = Some s
                \<and> json_loads s = Some (J_dict usage) \<and> usage_without_wait usage)
          \<or> (\<exists>s pre account_id ms metadata others further w.
                map_of (headers resp) ''x-business-use-case-usage'' = Some s
                \<and> json_loads s =
                    Some (J_dict (pre @ (account_id, J_list (ms @ J_dict metadata # others))
                                    # further))
                \<and> usage_without_wait pre \<and> metadata_without_wait ms
                \<and> map_of metadata ''estimated_time_to_regain_access'' = Some w
                \<and> \<not> py_truthy w))"
  then have b: "body resp = Some (J_dict kvs)" "map_of kvs ''error'' = Some (J_dict error)"
    by simp_all
  have r: "rate_limit_error error \<and> py_truthy (dict_get error ''is_transient'' (J_bool False))"
    using h by (simp add: rate_limit_error_def)
  from h consider
      (absent) "map_of (headers resp) ''x-business-use-case-usage'' = None"
    | (empty) "map_of (headers resp) ''x-business-use-case-usage'' = Some []"
    | (nowait) s usage where "map_of (headers resp) ''x-business-use-case-usage'' = Some s"
        "json_loads s = Some (J_dict usage)" "usage_without_wait usage"
    | (falsy) s pre account_id ms metadata others further w where
        "map_of (headers resp) ''x-business-use-case-usage'' = Some s"
        "json_loads s =
           Some (J_dict (pre @ (account_id, J_list (ms @ J_dict metadata # others)) # further))"
        "usage_without_wait pre" "metadata_without_wait ms"
        "map_of metadata ''estimated_time_to_regain_access'' = Some w" "\<not> py_truthy w"
    by (elim conjE disjE exE) fast+
  then show a: "is_throttle json_loads (Request_exception (Some resp)) = (Inr False, [])"
  proof cases
    case absent
    with r show ?thesis unfolding is_throttle_error_object [OF b] by simp
  next
    case empty
    with r show ?thesis unfolding is_throttle_error_object [OF b] by simp
  next
    case nowait
    with r scan_usage_without_wait [OF nowait(3), of "[]"] show ?thesis
      unfolding is_throttle_error_object [OF b] by simp
  next
    case falsy
    with r scan_usage_first_wait [OF falsy(3) falsy(4) falsy(5), of account_id others further]
    show ?thesis
      unfolding is_throttle_error_object [OF b] by simp
  qed
  show "do_with_backoff json_loads (Raises (Request_exception (Some resp)) # rest) n =
        (fst (do_with_backoff json_loads rest (Suc n)),
         [Request, Backoff_sleep (2 ^ n)] @ snd (do_with_backoff json_loads rest (Suc n)))"
    using do_with_backoff_retry [OF a, of rest n] by simp
qed

lemma example_throttled:
  "is_throttle example_loads (Request_exception (Some throttled)) =
     (Inr False, [Print_waiting (J_int 1) ''act_1'', Wait 60])"
  "is_throttle example_loads (Request_exception (Some throttled_zero_first)) = (Inr False, [])"
  by (simp_all add: is_throttle_def throttled_def throttled_zero_first_def example_loads_def
      dict_get_def rate_limit_body_def
      ADS_INSIGHTS_CODE_def ADS_MANAGEMENT_def CUSTOM_AUDIENCE_CODE_def RATE_LIMIT_SUBCODE_def)

text \<open>
  Against claim C7 as stated. Two calls in a row are rate limited with an estimated time
  of one minute, the third succeeds. After each wait of 60 seconds the decorator still
  sleeps its backoff wait, and the second backoff wait is the second of the sequence (up to
  2 seconds): the first cycle was counted and the backoff state was not renewed. And a
  rate-limited response whose usage header carries an estimated time of 0 in its first
  entry and of 5 minutes in its second one is retried without the wait of 300 seconds.
\<close>

theorem fresh_backoff_counterexample:
  "do_with_backoff example_loads
     [Raises (Request_exception (Some throttled)), Raises (Request_exception (Some throttled)),
      Returns (J_dict [(''data'', J_list [])])] 0 =
     (Some (Done (J_dict [(''data'', J_list [])])),
      [Request, Print_waiting (J_int 1) ''act_1'', Wait 60, Backoff_sleep 1,
       Request, Print_waiting (J_int 1) ''act_1'', Wait 60, Backoff_sleep 2,
       Request])
   \<and> example_loads ''{act_1: [{estimated_time_to_regain_access: 0}, {estimated_time_to_regain_access: 5}]}'' =
       Some (J_dict [(''act_1'',
               J_list [J_dict [(''estimated_time_to_regain_access'', J_int 0)],
                       J_dict [(''estimated_time_to_regain_access'', J_int 5)]])])
   \<and> is_throttle example_loads (Request_exception (Some throttled_zero_first)) = (Inr False, [])
   \<and> do_with_backoff example_loads
       [Raises (Request_exception (Some throttled_zero_first)),
        Returns (J_dict [(''data'', J_list [])])] 0 =
       (Some (Done (J_dict [(''data'', J_list [])])), [Request, Backoff_sleep 1, Request])"
  by (simp add: example_throttled) (simp add: example_loads_def)

theorem rate_limit_wait_then_backoff_witness:
  "rate_limit_error [(''message'', J_str ''There have been too many calls''),
                     (''type'', J_str ''OAuthException''), (''code'', J_int 80000),
                     (''error_subcode'', J_int 2446079), (''is_transient'', J_bool True)]
   \<and> is_throttle example_loads (Request_exception (Some throttled)) =
       (Inr False, [Print_waiting (J_int 1) ''act_1'', Wait 60])
   \<and> do_with_backoff example_loads
       [Raises (Request_exception (Some throttled)), Returns (J_dict [(''data'', J_list [])])] 3 =
       (Some (Done (J_dict [(''data'', J_list [])])),
        [Request, Print_waiting (J_int 1) ''act_1'', Wait 60, Backoff_sleep 8, Request])
   \<and> is_throttle example_loads (Request_exception (Some throttled_later_entry)) =
       (Inr False, [Print_waiting (J_int 5) ''act_2'', Wait 300])
   \<and> do_with_backoff example_loads
       [Raises (Request_exception (Some (throttled\<lparr>headers := []\<rparr>))),
        Returns (J_dict [(''data'', J_list [])])] 0 =
       (Some (Done (J_dict [(''data'', J_list [])])), [Request, Backoff_sleep 1, Request])
   \<and> do_with_backoff example_loads
       [Raises (Request_exception (Some throttled_zero_first)),
        Returns (J_dict [(''data'', J_list [])])] 0 =
       (Some (Done (J_dict [(''data'', J_list [])])), [Request, Backoff_sleep 1, Request])"
proof -
  let ?error = "[(''message'', J_str ''There have been too many calls''),
                     (''type'', J_str ''OAuthException''), (''code'', J_int 80000),
                     (''error_subcode'', J_int 2446079), (''is_transient'', J_bool True)]"
  have r: "rate_limit_error ?error"
    by (simp add: rate_limit_error_def dict_get_def ADS_INSIGHTS_CODE_def RATE_LIMIT_SUBCODE_def)
  note t1 = rate_limit_wait_then_backoff
    [where resp = throttled and kvs = "[(''error'', J_dict ?error)]" and error = ?error
       and s = "''{act_1: [{type: ads_insights, estimated_time_to_regain_access: 1}]}''"
       and json_loads = example_loads and pre = "[]" and account_id = "''act_1''" and ms = "[]"
       and metadata = "[(''type'', J_str ''ads_insights''),
                        (''estimated_time_to_regain_access'', J_int 1)]"
       and others = "[]" and further = "[]" and m = 1 and n = 3
       and rest = "[Returns (J_dict [(''data'', J_list [])])]"]
  note t2 = rate_limit_wait_then_backoff
    [where resp = "throttled\<lparr>headers := []\<rparr>" and kvs = "[(''error'', J_dict ?error)]"
       and error = ?error and json_loads = example_loads and n = 0
       and rest = "[Returns (J_dict [(''data'', J_list [])])]"]
  note t3 = rate_limit_wait_then_backoff
    [where resp = throttled_later_entry and kvs = "[(''error'', J_dict ?error)]"
       and error = ?error
       and s = "''{act_1: [{type: ads_management}], act_2: [{type: ads_insights}, {estimated_time_to_regain_access: 5}, {estimated_time_to_regain_access: 9}]}''"
       and json_loads = example_loads
       and pre = "[(''act_1'', J_list [J_dict [(''type'', J_str ''ads_management'')]])]"
       and account_id = "''act_2''"
       and ms = "[J_dict [(''type'', J_str ''ads_insights'')]]"
       and metadata = "[(''estimated_time_to_regain_access'', J_int 5)]"
       and others = "[J_dict [(''estimated_time_to_regain_access'', J_int 9)]]"
       and further = "[]" and m = 5 and n = 0 and rest = "[]"]
  note t4 = rate_limit_wait_then_backoff
    [where resp = throttled_zero_first and kvs = "[(''error'', J_dict ?error)]"
       and error = ?error and json_loads = example_loads and n = 0
       and rest = "[Returns (J_dict [(''data'', J_list [])])]"]
  have a: "is_throttle example_loads (Request_exception (Some throttled)) =
       (Inr False, [Print_waiting (J_int 1) ''act_1'', Wait 60])
     \<and> do_with_backoff example_loads
       [Raises (Request_exception (Some throttled)), Returns (J_dict [(''data'', J_list [])])] 3 =
       (Some (Done (J_dict [(''data'', J_list [])])),
        [Request, Print_waiting (J_int 1) ''act_1'', Wait 60, Backoff_sleep 8, Request])"
    using t1 r
    by (simp add: throttled_def rate_limit_body_def example_loads_def usage_without_wait_def
        metadata_without_wait_def)
  have b: "do_with_backoff example_loads
       [Raises (Request_exception (Some (throttled\<lparr>headers := []\<rparr>))),
        Returns (J_dict [(''data'', J_list [])])] 0 =
       (Some (Done (J_dict [(''data'', J_list [])])), [Request, Backoff_sleep 1, Request])"
    using t2 r by (simp add: throttled_def rate_limit_body_def)
  have c: "is_throttle example_loads (Request_exception (Some throttled_later_entry)) =
       (Inr False, [Print_waiting (J_int 5) ''act_2'', Wait 300])"
    using t3 r
    by (simp add: throttled_later_entry_def rate_limit_body_def example_loads_def
        usage_without_wait_def metadata_without_wait_def)
  have z: "example_loads ''{act_1: [{estimated_time_to_regain_access: 0}, {estimated_time_to_regain_access: 5}]}'' =
      Some (J_dict ([] @ (''act_1'',
              J_list ([] @ J_dict [(''estimated_time_to_regain_access'', J_int 0)]
                       # [J_dict [(''estimated_time_to_regain_access'', J_int 5)]])) # []))"
    by (simp add: example_loads_def)
  have d: "do_with_backoff example_loads
       [Raises (Request_exception (Some throttled_zero_first)),
        Returns (J_dict [(''data'', J_list [])])] 0 =
       (Some (Done (J_dict [(''data'', J_list [])])), [Request, Backoff_sleep 1, Request])"
  proof -
    have "\<exists>s pre account_id ms metadata others further w.
        map_of (headers throttled_zero_first) ''x-business-use-case-usage'' = Some s
        \<and> example_loads s =
            Some (J_dict (pre @ (account_id, J_list (ms @ J_dict metadata # others)) # further))
        \<and> usage_without_wait pre \<and> metadata_without_wait ms
        \<and> map_of metadata ''estimated_time_to_regain_access'' = Some w \<and> \<not> py_truthy w"
      apply (rule exI [where x = "''{act_1: [{estimated_time_to_regain_access: 0}, {estimated_time_to_regain_access: 5}]}''"])
      apply (rule exI [where x = "[]"])
      apply (rule exI [where x = "''act_1''"])
      apply (rule exI [where x = "[]"])
      apply (rule exI [where x = "[(''estimated_time_to_regain_access'', J_int 0)]"])
      apply (rule exI [where x = "[J_dict [(''estimated_time_to_regain_access'', J_int 5)]]"])
      apply (rule exI [where x = "[]"])
      apply (rule exI [where x = "J_int 0"])
      using z
      apply (simp add: throttled_zero_first_def usage_without_wait_def metadata_without_wait_def)
      done
    with t4 r show ?thesis
      by (simp add: throttled_zero_first_def rate_limit_body_def)
  qed
  from r a b c d show ?thesis by blast
qed

end
